theory Spec2Isabelle
  imports Main "HOL-Library.AList" "HOL-Library.Sublist"
begin

section \<open>The file system as the script sees it\<close>

text \<open>
  PackFrameworkerScript.py is sequential file-system orchestration. The model is a
  directory tree: a regular file carries its bytes, a directory carries its entries in
  listing order. A \<open>char\<close> is a byte, and a Python string is represented by its UTF-8
  encoding (section Text files). A path is the list of its components below the root;
  the paths the script builds with \<^verbatim>\<open>os.path.join\<close> from \<^verbatim>\<open>SCRIPT_DIR\<close>, fixed names
  and the configuration values are such lists, which is what \<^verbatim>\<open>os.path.join\<close> gives
  when each configuration value is a single directory name (\<open>plain\<close>; the statements
  about a build assume it). Only the lines of the removal list are kept as strings and
  resolved component by component, see \<open>resolve\<close>.
  POSIX conventions are used throughout; symbolic links and file metadata are not modelled.
\<close>

datatype node = File string | Dir "(string \<times> node) list"

datatype error = FileExistsError | FileNotFoundError | NotADirectoryError
  | IsADirectoryError | PermissionError | ShutilError | CalledProcessError | KeyError
  | SameFileError | UnicodeDecodeError

type_synonym path = "string list"

fun lookup :: "node \<Rightarrow> path \<Rightarrow> node option" where
  "lookup n [] = Some n"
| "lookup (File c) (k # ks) = None"
| "lookup (Dir es) (k # ks) = (case map_of es k of None \<Rightarrow> None | Some m \<Rightarrow> lookup m ks)"

definition os_path_exists :: "node \<Rightarrow> path \<Rightarrow> bool" where
  "os_path_exists t p = (lookup t p \<noteq> None)"

definition os_path_isdir :: "node \<Rightarrow> path \<Rightarrow> bool" where
  "os_path_isdir t p = (case lookup t p of Some (Dir es) \<Rightarrow> True | _ \<Rightarrow> False)"

definition os_path_isfile :: "node \<Rightarrow> path \<Rightarrow> bool" where
  "os_path_isfile t p = (case lookup t p of Some (File c) \<Rightarrow> True | _ \<Rightarrow> False)"

text \<open>Writing a node at a path whose parent directory exists (otherwise nothing changes).\<close>

fun put :: "node \<Rightarrow> path \<Rightarrow> node \<Rightarrow> node" where
  "put n [] v = v"
| "put (File c) (k # ks) v = File c"
| "put (Dir es) (k # ks) v =
     (if ks = [] then Dir (AList.update k v es)
      else case map_of es k of None \<Rightarrow> Dir es
           | Some m \<Rightarrow> Dir (AList.update k (put m ks v) es))"

text \<open>Unlinking the entry at a path.\<close>

fun delete_at :: "node \<Rightarrow> path \<Rightarrow> node" where
  "delete_at n [] = n"
| "delete_at (File c) (k # ks) = File c"
| "delete_at (Dir es) (k # ks) =
     (if ks = [] then Dir (AList.delete k es)
      else case map_of es k of None \<Rightarrow> Dir es
           | Some m \<Rightarrow> Dir (AList.update k (delete_at m ks) es))"

text \<open>
  \<^verbatim>\<open>os.makedirs(p, exist_ok=True)\<close>: creates every missing directory on the way;
  raises when a component on the way is a regular file (NotADirectoryError) or the
  target itself is one (FileExistsError). Nothing is created before such a failure,
  because everything above an existing file exists already.
\<close>

fun makedirs :: "node \<Rightarrow> path \<Rightarrow> error + node" where
  "makedirs (Dir es) [] = Inr (Dir es)"
| "makedirs (File c) [] = Inl FileExistsError"
| "makedirs (File c) (k # ks) = Inl NotADirectoryError"
| "makedirs (Dir es) (k # ks) =
     (case makedirs (case map_of es k of None \<Rightarrow> Dir [] | Some m \<Rightarrow> m) ks of
        Inl e \<Rightarrow> Inl e
      | Inr m' \<Rightarrow> Inr (Dir (AList.update k m' es)))"

text \<open>\<^verbatim>\<open>os.listdir(p)\<close>, each name together with the node it names.\<close>

definition os_listdir :: "node \<Rightarrow> path \<Rightarrow> error + (string \<times> node) list" where
  "os_listdir t p =
     (case lookup t p of
        None \<Rightarrow> Inl FileNotFoundError
      | Some (File c) \<Rightarrow> Inl NotADirectoryError
      | Some (Dir es) \<Rightarrow> Inr es)"

text \<open>A well-formed tree has no two entries of one name in a directory.\<close>

fun wf_node :: "node \<Rightarrow> bool" where
  "wf_node (File c) = True"
| "wf_node (Dir es) = (distinct (map fst es) \<and> (\<forall>m \<in> set (map snd es). wf_node m))"

text \<open>Two paths are separate when neither lies at or below the other.\<close>

definition separate :: "path \<Rightarrow> path \<Rightarrow> bool" where
  "separate p q = (\<not> prefix p q \<and> \<not> prefix q p)"

section \<open>shutil.copy2 and shutil.copytree\<close>

text \<open>
  Both work on one entry name \<open>k\<close> of the source directory and on what the destination
  directory holds under the same name (\<open>None\<close>: nothing).

  \<^verbatim>\<open>shutil.copy2(s_item, d_item)\<close>: when \<open>d_item\<close> is a directory the file is copied
  into it under the source's base name, which is \<open>k\<close> again; opening a directory for
  writing raises IsADirectoryError.
\<close>

definition copy2_slot :: "string \<Rightarrow> string \<Rightarrow> node option \<Rightarrow> error option \<times> node option" where
  "copy2_slot k c d =
     (case d of
        None \<Rightarrow> (None, Some (File c))
      | Some (File old) \<Rightarrow> (None, Some (File c))
      | Some (Dir sub) \<Rightarrow>
          (case map_of sub k of
             Some (Dir x) \<Rightarrow> (Some IsADirectoryError, Some (Dir sub))
           | _ \<Rightarrow> (None, Some (Dir (AList.update k (File c) sub)))))"

definition set_slot :: "string \<Rightarrow> node option \<Rightarrow> (string \<times> node) list \<Rightarrow> (string \<times> node) list" where
  "set_slot k v es = (case v of None \<Rightarrow> es | Some m \<Rightarrow> AList.update k m es)"

text \<open>
  The loop of \<^verbatim>\<open>shutil.copytree(src, dst, dirs_exist_ok=True)\<close> over the entries of the
  source directory, after \<^verbatim>\<open>os.makedirs(dst, exist_ok=True)\<close> succeeded: a
  subdirectory is copied by a recursive call, a file by \<^verbatim>\<open>copy2\<close>; an error of either
  is collected and the loop goes on. The flag says whether any error was collected.
  A recursive call whose destination is a regular file fails in its \<^verbatim>\<open>makedirs\<close>
  and changes nothing.
\<close>

fun copytree_into :: "node \<Rightarrow> (string \<times> node) list \<Rightarrow> bool \<times> (string \<times> node) list" where
  "copytree_into (File c) des = (False, des)"
| "copytree_into (Dir []) des = (False, des)"
| "copytree_into (Dir ((k, File c) # ses)) des =
     (case copy2_slot k c (map_of des k) of (e, v) \<Rightarrow>
        (case copytree_into (Dir ses) (set_slot k v des) of (b, des') \<Rightarrow>
           (e \<noteq> None \<or> b, des')))"
| "copytree_into (Dir ((k, Dir sub) # ses)) des =
     (case map_of des k of
        Some (File x) \<Rightarrow>
          (case copytree_into (Dir ses) des of (b, des') \<Rightarrow> (True, des'))
      | Some (Dir dsub) \<Rightarrow>
          (case copytree_into (Dir sub) dsub of (b1, sub') \<Rightarrow>
             (case copytree_into (Dir ses) (AList.update k (Dir sub') des) of (b2, des') \<Rightarrow>
                (b1 \<or> b2, des')))
      | None \<Rightarrow>
          (case copytree_into (Dir sub) [] of (b1, sub') \<Rightarrow>
             (case copytree_into (Dir ses) (AList.update k (Dir sub') des) of (b2, des') \<Rightarrow>
                (b1 \<or> b2, des'))))"

text \<open>
  \<^verbatim>\<open>shutil.copytree(s_item, d_item, dirs_exist_ok=True)\<close> as a whole: FileExistsError
  from \<^verbatim>\<open>makedirs\<close> when the destination is a regular file; \<^verbatim>\<open>shutil.Error\<close> at the
  end when errors were collected (what was copied stays copied).
\<close>

definition copytree_slot :: "(string \<times> node) list \<Rightarrow> node option \<Rightarrow> error option \<times> node option" where
  "copytree_slot sub d =
     (case d of
        Some (File x) \<Rightarrow> (Some FileExistsError, Some (File x))
      | Some (Dir dsub) \<Rightarrow>
          (case copytree_into (Dir sub) dsub of (b, sub') \<Rightarrow>
             (if b then Some ShutilError else None, Some (Dir sub')))
      | None \<Rightarrow>
          (case copytree_into (Dir sub) [] of (b, sub') \<Rightarrow>
             (if b then Some ShutilError else None, Some (Dir sub'))))"

definition copy_item :: "string \<Rightarrow> node \<Rightarrow> node option \<Rightarrow> error option \<times> node option" where
  "copy_item k m d = (case m of File c \<Rightarrow> copy2_slot k c d | Dir sub \<Rightarrow> copytree_slot sub d)"

section \<open>copy\_directory\_contents\<close>

text \<open>
  The loop of \<open>copy_directory_contents\<close> (lines 155-161): nothing catches an exception
  of \<^verbatim>\<open>copytree\<close> or \<^verbatim>\<open>copy2\<close>, so the first one ends the loop and leaves the function.
\<close>

fun copy_items :: "(string \<times> node) list \<Rightarrow> (string \<times> node) list \<Rightarrow> error option \<times> (string \<times> node) list" where
  "copy_items [] des = (None, des)"
| "copy_items ((k, m) # ses) des =
     (case copy_item k m (map_of des k) of
        (Some e, v) \<Rightarrow> (Some e, set_slot k v des)
      | (None, v) \<Rightarrow> copy_items ses (set_slot k v des))"

text \<open>
  The state of the run: the file system and what has been printed or run so far.
  A function of the script returns the exception that left it, if any, and the state.
\<close>

datatype event = Print string | Run "string list" path

record world =
  fs :: node
  out :: "event list"

definition print :: "string \<Rightarrow> world \<Rightarrow> world" where
  "print s w = w\<lparr>out := out w @ [Print s]\<rparr>"

text \<open>
  Copying a directory onto itself: \<^verbatim>\<open>copy2\<close> of a file onto itself raises
  \<^verbatim>\<open>SameFileError\<close> and writes nothing; inside \<^verbatim>\<open>copytree\<close> that error is collected,
  so a subdirectory fails with \<^verbatim>\<open>shutil.Error\<close> exactly when a regular file lies
  somewhere in it. The first failing entry ends the loop.
\<close>

fun contains_file :: "node \<Rightarrow> bool" where
  "contains_file (File c) = True"
| "contains_file (Dir es) = (\<exists>m \<in> set (map snd es). contains_file m)"

fun copy_items_same :: "(string \<times> node) list \<Rightarrow> error option" where
  "copy_items_same [] = None"
| "copy_items_same ((k, File c) # ses) = Some SameFileError"
| "copy_items_same ((k, Dir sub) # ses) =
     (if contains_file (Dir sub) then Some ShutilError else copy_items_same ses)"

text \<open>
  Lines 142-161. The entries of the source are listed after \<^verbatim>\<open>makedirs\<close> and the merged
  entries are written at the destination. The listing is copied as it was read; this is
  what the code does when source and destination are separate trees, as at every call
  of the script (\<^verbatim>\<open>framework/...\<close> and \<^verbatim>\<open>mod/...\<close> into \<^verbatim>\<open>beta/...\<close>), and when
  they are the same directory. When one lies strictly inside the other the code reads
  directories it has already written into; the definition agrees with it as long as no
  directory is read after a file has been copied into it.
\<close>

definition copy_directory_contents :: "path \<Rightarrow> path \<Rightarrow> world \<Rightarrow> error option \<times> world" where
  "copy_directory_contents src dest w =
     (if \<not> os_path_exists (fs w) src then (None, w)
      else case makedirs (fs w) dest of
             Inl e \<Rightarrow> (Some e, w)
           | Inr fs1 \<Rightarrow>
               (case os_listdir fs1 src of
                  Inl e \<Rightarrow> (Some e, w\<lparr>fs := fs1\<rparr>)
                | Inr ses \<Rightarrow>
                    if src = dest then (copy_items_same ses, w\<lparr>fs := fs1\<rparr>)
                    else
                    (case lookup fs1 dest of
                       Some (Dir des) \<Rightarrow>
                         (case copy_items ses des of
                            (e, des') \<Rightarrow> (e, w\<lparr>fs := put fs1 dest (Dir des')\<rparr>))
                     | _ \<Rightarrow> (Some FileNotFoundError, w\<lparr>fs := fs1\<rparr>))))"

section \<open>Removing files and trees\<close>

text \<open>
  The environment of a run: the directory of the script, the paths whose removal the
  operating system refuses (permissions, locks), the files that \<^verbatim>\<open>open\<close> in the script
  (lines 175, 178 and 228) cannot open for reading or for writing, and the external
  programs: what \<^verbatim>\<open>argv\<close>, started in a working directory on a file system, exits with
  and leaves behind, or that there is no such program on the PATH.
\<close>

datatype proc_outcome = Exit int | NoSuchProgram

record env =
  script_dir :: path
  denied :: "path \<Rightarrow> bool"
  unreadable :: "path \<Rightarrow> bool"
  unwritable :: "path \<Rightarrow> bool"
  proc :: "string list \<Rightarrow> path \<Rightarrow> node \<Rightarrow> proc_outcome \<times> node"

text \<open>\<^verbatim>\<open>os.remove(p)\<close>.\<close>

definition os_remove :: "env \<Rightarrow> path \<Rightarrow> world \<Rightarrow> error option \<times> world" where
  "os_remove E p w =
     (case lookup (fs w) p of
        None \<Rightarrow> (Some FileNotFoundError, w)
      | Some (Dir es) \<Rightarrow> (Some IsADirectoryError, w)
      | Some (File c) \<Rightarrow>
          (if denied E p then (Some PermissionError, w)
           else (None, w\<lparr>fs := delete_at (fs w) p\<rparr>)))"

text \<open>
  \<^verbatim>\<open>shutil.rmtree\<close> empties a directory entry by entry, subdirectories first emptied and
  then removed, and raises at the first refusal; what was removed before stays removed.
  \<open>rmtree_entries\<close> returns the error, if any, and the directory with what is left in it.
\<close>

fun rmtree_entries :: "(path \<Rightarrow> bool) \<Rightarrow> path \<Rightarrow> node \<Rightarrow> error option \<times> node" where
  "rmtree_entries dn p (File c) = (None, File c)"
| "rmtree_entries dn p (Dir []) = (None, Dir [])"
| "rmtree_entries dn p (Dir ((k, File c) # es)) =
     (if dn (p @ [k]) then (Some PermissionError, Dir ((k, File c) # es))
      else rmtree_entries dn p (Dir es))"
| "rmtree_entries dn p (Dir ((k, Dir sub) # es)) =
     (case rmtree_entries dn (p @ [k]) (Dir sub) of
        (Some e, m) \<Rightarrow> (Some e, Dir ((k, m) # es))
      | (None, m) \<Rightarrow>
          (if dn (p @ [k]) then (Some PermissionError, Dir ((k, Dir []) # es))
           else rmtree_entries dn p (Dir es)))"

text \<open>
  \<^verbatim>\<open>shutil.rmtree(p)\<close>. The last step is \<^verbatim>\<open>os.rmdir\<close> on the path as it was given;
  \<open>rmdir_ok\<close> is false when that path ends in \<^verbatim>\<open>.\<close> or \<^verbatim>\<open>..\<close>, which \<^verbatim>\<open>rmdir\<close> rejects,
  and the root cannot be removed.
\<close>

definition shutil_rmtree :: "env \<Rightarrow> path \<Rightarrow> bool \<Rightarrow> world \<Rightarrow> error option \<times> world" where
  "shutil_rmtree E p rmdir_ok w =
     (case lookup (fs w) p of
        None \<Rightarrow> (Some FileNotFoundError, w)
      | Some (File c) \<Rightarrow> (Some NotADirectoryError, w)
      | Some (Dir es) \<Rightarrow>
          (case rmtree_entries (denied E) p (Dir es) of
             (Some e, m) \<Rightarrow> (Some e, w\<lparr>fs := put (fs w) p m\<rparr>)
           | (None, m) \<Rightarrow>
               (if denied E p \<or> p = [] \<or> \<not> rmdir_ok
                then (Some PermissionError, w\<lparr>fs := put (fs w) p (Dir [])\<rparr>)
                else (None, w\<lparr>fs := delete_at (fs w) p\<rparr>))))"

definition os_makedirs :: "path \<Rightarrow> world \<Rightarrow> error option \<times> world" where
  "os_makedirs p w =
     (case makedirs (fs w) p of Inl e \<Rightarrow> (Some e, w) | Inr t \<Rightarrow> (None, w\<lparr>fs := t\<rparr>))"

text \<open>Statements in sequence: the first exception ends the sequence.\<close>

fun run_steps :: "(world \<Rightarrow> error option \<times> world) list \<Rightarrow> world \<Rightarrow> error option \<times> world" where
  "run_steps [] w = (None, w)"
| "run_steps (f # rest) w =
     (case f w of (Some e, w') \<Rightarrow> (Some e, w') | (None, w') \<Rightarrow> run_steps rest w')"

section \<open>External commands and update\_pack\_framework\<close>

text \<open>
  \<^verbatim>\<open>subprocess.run(argv, cwd=cwd, check=True)\<close>: raises FileNotFoundError or
  NotADirectoryError when the working directory is missing or is a file, FileNotFoundError
  when the program is not on the PATH, and CalledProcessError after a run that exits
  with a status other than 0.
\<close>

definition subprocess_run :: "env \<Rightarrow> string list \<Rightarrow> path \<Rightarrow> world \<Rightarrow> error option \<times> world" where
  "subprocess_run E argv cwd w =
     (case lookup (fs w) cwd of
        None \<Rightarrow> (Some FileNotFoundError, w)
      | Some (File c) \<Rightarrow> (Some NotADirectoryError, w)
      | Some (Dir es) \<Rightarrow>
          (case proc E argv cwd (fs w) of
             (NoSuchProgram, t) \<Rightarrow> (Some FileNotFoundError, w)
           | (Exit n, t) \<Rightarrow>
               (if n = 0 then None else Some CalledProcessError,
                w\<lparr>fs := t, out := out w @ [Run argv cwd]\<rparr>)))"

definition git_pull :: "string list" where
  "git_pull = [''git'', ''pull'', ''origin'']"

definition git_clone :: "string list" where
  "git_clone = [''git'', ''clone'', ''https://github.com/Den4enko/PackFramework'', ''framework'']"

text \<open>Lines 117-139. Only \<^verbatim>\<open>subprocess.CalledProcessError\<close> is caught.\<close>

definition update_pack_framework :: "env \<Rightarrow> world \<Rightarrow> error option \<times> world" where
  "update_pack_framework E w =
     (let framework_path = script_dir E @ [''framework''] in
      if os_path_exists (fs w) framework_path then
        (case subprocess_run E git_pull framework_path
                (print ''Found a PackFramework folder, trying to update...'' w) of
           (Some CalledProcessError, w') \<Rightarrow> (None, print ''Error updating PackFramework.'' w')
         | r \<Rightarrow> r)
      else
        (case subprocess_run E git_clone (script_dir E)
                (print ''PackFramework folder not found, cloning repository...'' w) of
           (Some CalledProcessError, w') \<Rightarrow>
             (None, print ''Error cloning PackFramework repository.'' w')
         | r \<Rightarrow> r))"

section \<open>Text files\<close>

text \<open>
  The script opens its files in text mode with \<^verbatim>\<open>encoding="utf-8"\<close>. Reading decodes the
  bytes, which raises UnicodeDecodeError unless they are well-formed UTF-8, and turns the
  line endings CR LF and CR into LF; writing encodes, and leaves LF as it is. With a
  Python string represented by its UTF-8 encoding, decoding is the check of the bytes
  followed by the translation of the line endings, and encoding changes nothing.

  \<open>utf8_len s\<close> is the number of bytes of the well-formed character that \<open>s\<close> starts
  with, and 0 when it starts with none (Unicode, table 3-7: no overlong forms, no
  surrogates, nothing above U+10FFFF).
\<close>

definition byte_in :: "char \<Rightarrow> nat \<Rightarrow> nat \<Rightarrow> bool" where
  "byte_in c lo hi = (lo \<le> of_char c \<and> (of_char c :: nat) \<le> hi)"

definition continuations :: "nat \<Rightarrow> string \<Rightarrow> bool" where
  "continuations n s = (n \<le> length s \<and> list_all (\<lambda>c. byte_in c 0x80 0xBF) (take n s))"

fun utf8_len :: "string \<Rightarrow> nat" where
  "utf8_len [] = 0"
| "utf8_len (a # r) =
     (if byte_in a 0x00 0x7F then 1
      else if byte_in a 0xC2 0xDF then (if continuations 1 r then 2 else 0)
      else if byte_in a 0xE0 0xEF then
        (case r of
           [] \<Rightarrow> 0
         | b # r' \<Rightarrow>
             if byte_in b (if byte_in a 0xE0 0xE0 then 0xA0 else 0x80)
                          (if byte_in a 0xED 0xED then 0x9F else 0xBF) \<and> continuations 1 r'
             then 3 else 0)
      else if byte_in a 0xF0 0xF4 then
        (case r of
           [] \<Rightarrow> 0
         | b # r' \<Rightarrow>
             if byte_in b (if byte_in a 0xF0 0xF0 then 0x90 else 0x80)
                          (if byte_in a 0xF4 0xF4 then 0x8F else 0xBF) \<and> continuations 2 r'
             then 4 else 0)
      else 0)"

function utf8_valid :: "string \<Rightarrow> bool" where
  "utf8_valid s =
     (if s = [] then True
      else if utf8_len s = 0 then False
      else utf8_valid (drop (utf8_len s) s))"
  by pat_completeness auto
termination
  by (relation "measure length") auto

declare utf8_valid.simps [simp del]

fun universal_newlines :: "string \<Rightarrow> string" where
  "universal_newlines [] = []"
| "universal_newlines [c] = [if c = CHR 0x0D then CHR 0x0A else c]"
| "universal_newlines (c # d # ds) =
     (if c = CHR 0x0D
      then (if d = CHR 0x0A then CHR 0x0A # universal_newlines ds
            else CHR 0x0A # universal_newlines (d # ds))
      else c # universal_newlines (d # ds))"

text \<open>\<^verbatim>\<open>open(p, "r", encoding="utf-8").read()\<close> on the bytes of a file.\<close>

definition decode_text :: "string \<Rightarrow> error + string" where
  "decode_text bytes =
     (if utf8_valid bytes then Inr (universal_newlines bytes) else Inl UnicodeDecodeError)"

text \<open>Opening a regular file of the tree for reading, and reading it all.\<close>

definition read_file :: "env \<Rightarrow> path \<Rightarrow> string \<Rightarrow> error + string" where
  "read_file E p bytes = (if unreadable E p then Inl PermissionError else decode_text bytes)"

section \<open>replace\_in\_file\<close>

text \<open>
  \<^verbatim>\<open>str.replace(old, new)\<close>: the occurrences of \<open>old\<close> are found from the left and do not
  overlap; an empty \<open>old\<close> matches before every character and at the end. On the
  encodings this is replacement of bytes, since a well-formed string occurs in another
  at the boundaries of characters only; a character starts at every byte that is not a
  continuation byte.
\<close>

function replace_nonempty :: "string \<Rightarrow> string \<Rightarrow> string \<Rightarrow> string" where
  "replace_nonempty old new [] = []"
| "replace_nonempty old new (c # cs) =
     (if old \<noteq> [] \<and> prefix old (c # cs)
      then new @ replace_nonempty old new (drop (length old) (c # cs))
      else c # replace_nonempty old new cs)"
  by pat_completeness auto
termination
  by (relation "measure (\<lambda>(old, new, s). length s)") auto

definition str_replace :: "string \<Rightarrow> string \<Rightarrow> string \<Rightarrow> string" where
  "str_replace old new s =
     (if old = []
      then concat (map (\<lambda>c. if byte_in c 0x80 0xBF then [c] else new @ [c]) s) @ new
      else replace_nonempty old new s)"

text \<open>
  Lines 164-181. The file is read whole, then opened for writing and written. Whatever
  fails (the path is a directory, the file cannot be opened, its bytes are not UTF-8) is
  reported by the \<^verbatim>\<open>except Exception\<close>, and the file is as it was; the message is kept
  without the text of the exception. The function never raises.
\<close>

definition replace_in_file :: "env \<Rightarrow> path \<Rightarrow> string \<Rightarrow> string \<Rightarrow> world \<Rightarrow> world" where
  "replace_in_file E file_path old_text new_text w =
     (case lookup (fs w) file_path of
        None \<Rightarrow> w
      | Some (Dir es) \<Rightarrow> print ''Error processing file'' w
      | Some (File bytes) \<Rightarrow>
          (case read_file E file_path bytes of
             Inl e \<Rightarrow> print ''Error processing file'' w
           | Inr content \<Rightarrow>
               if unwritable E file_path then print ''Error processing file'' w
               else w\<lparr>fs := put (fs w) file_path
                                (File (str_replace old_text new_text content))\<rparr>))"

section \<open>The removal list\<close>

text \<open>
  The lines of the removal list are strings. \<^verbatim>\<open>os.path.join(output_path, line)\<close> is
  string concatenation, and an absolute second argument replaces the first; the operating
  system then resolves the string component by component: an empty component and \<^verbatim>\<open>.\<close>
  stay, \<^verbatim>\<open>..\<close> goes to the parent, and every component is looked up in a directory
  that must exist.
\<close>

definition path_string :: "path \<Rightarrow> string" where
  "path_string p = (if p = [] then ''/'' else concat (map (\<lambda>c. CHR ''/'' # c) p))"

definition os_path_join :: "string \<Rightarrow> string \<Rightarrow> string" where
  "os_path_join a b =
     (if b \<noteq> [] \<and> hd b = CHR ''/'' then b
      else if a = [] \<or> last a = CHR ''/'' then a @ b
      else a @ ''/'' @ b)"

fun split_on :: "char \<Rightarrow> string \<Rightarrow> string list" where
  "split_on d [] = [[]]"
| "split_on d (c # cs) =
     (if c = d then [] # split_on d cs
      else (case split_on d cs of [] \<Rightarrow> [[c]] | x # xs \<Rightarrow> (c # x) # xs))"

fun walk :: "node \<Rightarrow> path \<Rightarrow> string list \<Rightarrow> path option" where
  "walk t cur [] = Some cur"
| "walk t cur (c # cs) =
     (if \<not> os_path_isdir t cur then None
      else walk t (if c = [] \<or> c = ''.'' then cur
                   else if c = ''..'' then butlast cur
                   else cur @ [c]) cs)"

text \<open>The path an absolute path string names, if the directories on the way exist.\<close>

definition resolve :: "node \<Rightarrow> string \<Rightarrow> path option" where
  "resolve t s = walk t [] (split_on CHR ''/'' s)"

definition ends_in_dot :: "string \<Rightarrow> bool" where
  "ends_in_dot s = (last (split_on CHR ''/'' s) \<in> {''.'', ''..''})"

text \<open>
  \<^verbatim>\<open>str.strip()\<close> removes the white space of Unicode at both ends: U+0009 to U+000D,
  U+001C to U+0020, U+0085, U+00A0, U+1680, U+2000 to U+200A, U+2028, U+2029, U+202F,
  U+205F and U+3000, here in their encodings.
\<close>

definition whitespace :: "string list" where
  "whitespace =
     [[CHR 0x09], [CHR 0x0A], [CHR 0x0B], [CHR 0x0C], [CHR 0x0D],
      [CHR 0x1C], [CHR 0x1D], [CHR 0x1E], [CHR 0x1F], [CHR 0x20],
      [CHR 0xC2, CHR 0x85], [CHR 0xC2, CHR 0xA0], [CHR 0xE1, CHR 0x9A, CHR 0x80],
      [CHR 0xE2, CHR 0x80, CHR 0x80], [CHR 0xE2, CHR 0x80, CHR 0x81],
      [CHR 0xE2, CHR 0x80, CHR 0x82], [CHR 0xE2, CHR 0x80, CHR 0x83],
      [CHR 0xE2, CHR 0x80, CHR 0x84], [CHR 0xE2, CHR 0x80, CHR 0x85],
      [CHR 0xE2, CHR 0x80, CHR 0x86], [CHR 0xE2, CHR 0x80, CHR 0x87],
      [CHR 0xE2, CHR 0x80, CHR 0x88], [CHR 0xE2, CHR 0x80, CHR 0x89],
      [CHR 0xE2, CHR 0x80, CHR 0x8A], [CHR 0xE2, CHR 0x80, CHR 0xA8],
      [CHR 0xE2, CHR 0x80, CHR 0xA9], [CHR 0xE2, CHR 0x80, CHR 0xAF],
      [CHR 0xE2, CHR 0x81, CHR 0x9F], [CHR 0xE3, CHR 0x80, CHR 0x80]]"

text \<open>The length of the white-space character a string starts with, 0 when there is none.\<close>

definition space_len :: "string list \<Rightarrow> string \<Rightarrow> nat" where
  "space_len ws s = (case find (\<lambda>e. prefix e s) ws of None \<Rightarrow> 0 | Some e \<Rightarrow> length e)"

function lstrip :: "string list \<Rightarrow> string \<Rightarrow> string" where
  "lstrip ws s = (if space_len ws s = 0 then s else lstrip ws (drop (space_len ws s) s))"
  by pat_completeness auto
termination
proof (relation "measure (\<lambda>(ws, s). length s)")
  show "wf (measure (\<lambda>(ws, s). length s))" by simp
next
  fix ws :: "string list" and s :: string
  assume a: "space_len ws s \<noteq> 0"
  then obtain e where "find (\<lambda>e. prefix e s) ws = Some e" and "length e \<noteq> 0"
    by (auto simp: space_len_def split: option.splits)
  then have "prefix e s" and "e \<noteq> []" by (auto simp: find_Some_iff)
  then have "s \<noteq> []" by auto
  with a show "((ws, drop (space_len ws s) s), (ws, s)) \<in> measure (\<lambda>(ws, s). length s)" by simp
qed

declare lstrip.simps [simp del]

definition strip :: "string \<Rightarrow> string" where
  "strip s = rev (lstrip (map rev whitespace) (rev (lstrip whitespace s)))"

text \<open>\<^verbatim>\<open>readlines()\<close> on the text read: the lines, each with its LF.\<close>

definition readlines :: "string \<Rightarrow> string list" where
  "readlines s =
     (let ps = split_on CHR 0x0A s
      in map (\<lambda>l. l @ [CHR 0x0A]) (butlast ps) @ (if last ps = [] then [] else [last ps]))"

text \<open>The loop of lines 230-237; an exception of a removal leaves the loop.\<close>

fun remove_listed :: "env \<Rightarrow> path \<Rightarrow> string list \<Rightarrow> world \<Rightarrow> error option \<times> world" where
  "remove_listed E output_path [] w = (None, w)"
| "remove_listed E output_path (line # rest) w =
     (let file_relative = strip line in
      if file_relative = [] then remove_listed E output_path rest w
      else
        let target_path = os_path_join (path_string output_path) file_relative in
        (case resolve (fs w) target_path of
           None \<Rightarrow> remove_listed E output_path rest w
         | Some p \<Rightarrow>
             if os_path_isfile (fs w) p then
               (case os_remove E p w of
                  (Some e, w') \<Rightarrow> (Some e, w')
                | (None, w') \<Rightarrow> remove_listed E output_path rest w')
             else if os_path_isdir (fs w) p then
               (case shutil_rmtree E p (\<not> ends_in_dot target_path) w of
                  (Some e, w') \<Rightarrow> (Some e, w')
                | (None, w') \<Rightarrow> remove_listed E output_path rest w')
             else remove_listed E output_path rest w))"

text \<open>
  Lines 224-240. One \<^verbatim>\<open>try\<close> spans reading the list, the loop and the removal of the
  list itself; its \<^verbatim>\<open>except Exception\<close> prints one message (kept without the text of
  the exception). A list that cannot be opened or decoded raises before any line is
  processed. The block never raises.
\<close>

definition process_removals :: "env \<Rightarrow> path \<Rightarrow> world \<Rightarrow> world" where
  "process_removals E output_path w =
     (let files_to_remove_path = output_path @ [''filesToRemove.txt''] in
      case lookup (fs w) files_to_remove_path of
        Some (File bytes) \<Rightarrow>
          (case read_file E files_to_remove_path bytes of
             Inl e \<Rightarrow>
               print ''Error removing files'' (print ''Removing files from the list...'' w)
           | Inr content \<Rightarrow>
               (case run_steps [remove_listed E output_path (readlines content),
                                os_remove E files_to_remove_path]
                       (print ''Removing files from the list...'' w) of
                  (Some e, w') \<Rightarrow> print ''Error removing files'' w'
                | (None, w') \<Rightarrow> w'))
      | _ \<Rightarrow> w)"

section \<open>build\_modpack\<close>

text \<open>Lines 201-204: the output directory is removed with all it holds and made anew.\<close>

definition clean_output :: "env \<Rightarrow> path \<Rightarrow> world \<Rightarrow> error option \<times> world" where
  "clean_output E output_path =
     run_steps
       [\<lambda>w. if os_path_exists (fs w) output_path then shutil_rmtree E output_path True w
             else (None, w),
        os_makedirs output_path]"

text \<open>Lines 206-221: the tiers, merged in this order.\<close>

definition src_path :: "env \<Rightarrow> string \<Rightarrow> string \<Rightarrow> string \<Rightarrow> path" where
  "src_path E modloader mcversion modpacktype =
     script_dir E @ [''framework'', ''packwiz'', modloader, mcversion, modpacktype]"

definition src_path_server :: "env \<Rightarrow> string \<Rightarrow> path" where
  "src_path_server E modloader = script_dir E @ [''mod'', modloader, ''all'', ''server'']"

definition src_path_nano :: "env \<Rightarrow> string \<Rightarrow> path" where
  "src_path_nano E modloader = script_dir E @ [''mod'', modloader, ''all'', ''nano'']"

definition src_path_giga :: "env \<Rightarrow> string \<Rightarrow> path" where
  "src_path_giga E modloader = script_dir E @ [''mod'', modloader, ''all'', ''giga'']"

definition merge_tiers ::
  "env \<Rightarrow> string \<Rightarrow> string \<Rightarrow> string \<Rightarrow> path \<Rightarrow> world \<Rightarrow> error option \<times> world" where
  "merge_tiers E modloader mcversion modpacktype output_path =
     run_steps
       ([copy_directory_contents (src_path E modloader mcversion modpacktype) output_path,
         copy_directory_contents (src_path_server E modloader) output_path] @
        (if modpacktype \<in> set [''nano'', ''giga'']
         then [copy_directory_contents (src_path_nano E modloader) output_path] @
              (if modpacktype = ''giga''
               then [copy_directory_contents (src_path_giga E modloader) output_path]
               else [])
         else []))"

text \<open>Lines 242-250.\<close>

definition stamp_version :: "env \<Rightarrow> string \<Rightarrow> path \<Rightarrow> string \<Rightarrow> world \<Rightarrow> world" where
  "stamp_version E modpacktype output_path selected_version w =
     (let w1 = replace_in_file E (output_path @ [''pack.toml'']) ''noVersion'' selected_version w;
          w2 = replace_in_file E (output_path @ [''config'', ''bcc-common.toml''])
                 ''noVersion'' selected_version w1
      in if modpacktype \<in> set [''nano'', ''giga'']
         then replace_in_file E
                (output_path @ [''config'', ''fancymenu'', ''custom_locals'', ''mod'', ''en_us.local''])
                ''noVersion'' selected_version w2
         else w2)"

text \<open>Lines 252-259. Only \<^verbatim>\<open>subprocess.CalledProcessError\<close> is caught.\<close>

definition refresh_pack :: "env \<Rightarrow> path \<Rightarrow> world \<Rightarrow> error option \<times> world" where
  "refresh_pack E output_path w =
     (case subprocess_run E [''packwiz'', ''refresh'', ''--build''] output_path
             (print ''Refreshing modpack using packwiz...'' w) of
        (Some CalledProcessError, w') \<Rightarrow>
          (None, print ''Done!'' (print ''Error refreshing modpack with packwiz.'' w'))
      | (Some e, w') \<Rightarrow> (Some e, w')
      | (None, w') \<Rightarrow> (None, print ''Done!'' w'))"

definition output_path_of :: "env \<Rightarrow> string \<Rightarrow> string \<Rightarrow> string \<Rightarrow> path" where
  "output_path_of E modloader mcversion modpacktype =
     script_dir E @ [''beta'', modloader, mcversion, modpacktype]"

text \<open>
  Lines 184-259. The configuration is the dictionary read from the configuration file;
  a missing key raises KeyError. \<open>output_path_of\<close> and the source paths above are the
  paths \<^verbatim>\<open>os.path.join\<close> names when the configuration values are plain names.
\<close>

definition build_modpack ::
  "env \<Rightarrow> string \<Rightarrow> (string \<rightharpoonup> string) \<Rightarrow> string \<Rightarrow> world \<Rightarrow> error option \<times> world" where
  "build_modpack E modpacktype config selected_version w =
     (case config ''modloader'' of
        None \<Rightarrow> (Some KeyError, w)
      | Some modloader \<Rightarrow>
          (case config ''mcversion'' of
             None \<Rightarrow> (Some KeyError, w)
           | Some mcversion \<Rightarrow>
               (let output_path = output_path_of E modloader mcversion modpacktype
                in run_steps
                     [\<lambda>w. (None, print (''Building '' @ mcversion @ ''-'' @ modpacktype @ ''...'') w),
                      clean_output E output_path,
                      merge_tiers E modloader mcversion modpacktype output_path,
                      \<lambda>w. (None, process_removals E output_path w),
                      \<lambda>w. (None, stamp_version E modpacktype output_path selected_version w),
                      refresh_pack E output_path] w)))"

section \<open>copy\_beta\_to\_release\<close>

text \<open>
  Lines 262-290. The loop over the entries of the beta directory is the loop of
  \<open>copy_directory_contents\<close>; nothing checks that the beta directory exists.
\<close>

definition copy_beta_items :: "path \<Rightarrow> path \<Rightarrow> world \<Rightarrow> error option \<times> world" where
  "copy_beta_items beta_dir release_dir w =
     (case os_listdir (fs w) beta_dir of
        Inl e \<Rightarrow> (Some e, w)
      | Inr items \<Rightarrow>
          (case lookup (fs w) release_dir of
             Some (Dir des) \<Rightarrow>
               (case copy_items items des of
                  (e, des') \<Rightarrow> (e, w\<lparr>fs := put (fs w) release_dir (Dir des')\<rparr>))
           | _ \<Rightarrow> (Some FileNotFoundError, w)))"

definition remove_last_version :: "env \<Rightarrow> path \<Rightarrow> world \<Rightarrow> error option \<times> world" where
  "remove_last_version E release_dir w =
     (let last_version_release = release_dir @ [''lastVersion.txt''] in
      if os_path_exists (fs w) last_version_release then
        (case os_remove E last_version_release w of
           (Some e, w') \<Rightarrow> (None, print ''Error removing lastVersion.txt from release'' w')
         | (None, w') \<Rightarrow> (None, w'))
      else (None, w))"

definition copy_beta_to_release :: "env \<Rightarrow> world \<Rightarrow> error option \<times> world" where
  "copy_beta_to_release E =
     (let beta_dir = script_dir E @ [''beta''];
          release_dir = script_dir E @ [''release'']
      in run_steps
           [\<lambda>w. if os_path_exists (fs w) release_dir then shutil_rmtree E release_dir True w
                 else (None, w),
            os_makedirs release_dir,
            copy_beta_items beta_dir release_dir,
            remove_last_version E release_dir])"

section \<open>Predicates used in the statements\<close>

text \<open>
  \<open>keeps t t'\<close>: every path that names a regular file in \<open>t\<close> names a regular file in
  \<open>t'\<close>, and every path that names a directory names a directory.
\<close>

definition keeps :: "node \<Rightarrow> node \<Rightarrow> bool" where
  "keeps t t' = (\<forall>q. (os_path_isfile t q \<longrightarrow> os_path_isfile t' q) \<and>
                     (os_path_isdir t q \<longrightarrow> os_path_isdir t' q))"

definition okeeps :: "node option \<Rightarrow> node option \<Rightarrow> bool" where
  "okeeps d v = (case d of None \<Rightarrow> True | Some x \<Rightarrow> (case v of None \<Rightarrow> False | Some y \<Rightarrow> keeps x y))"


section \<open>Example states\<close>

definition example_merge :: world where
  "example_merge =
     \<lparr>fs = Dir [(''src'', Dir [(''a'', File ''1''), (''d'', Dir [(''x'', File ''2'')])]),
               (''dst'', Dir [(''keep'', File ''k''), (''d'', Dir [(''y'', File ''3'')])])],
      out = []\<rparr>"

definition example_merged :: world where
  "example_merged =
     \<lparr>fs = Dir [(''src'', Dir [(''a'', File ''1''), (''d'', Dir [(''x'', File ''2'')])]),
               (''dst'', Dir [(''keep'', File ''k''),
                              (''d'', Dir [(''y'', File ''3''), (''x'', File ''2'')]),
                              (''a'', File ''1'')])],
      out = []\<rparr>"


text \<open>The external commands that were run, in order.\<close>

fun runs :: "event list \<Rightarrow> (string list \<times> path) list" where
  "runs [] = []"
| "runs (Print s # es) = runs es"
| "runs (Run argv cwd # es) = (argv, cwd) # runs es"

text \<open>
  What \<open>update_pack_framework\<close> asks git to do and where, and whether the command can be
  started at all: its working directory is a directory and git is on the PATH.
\<close>

definition sync_command :: "env \<Rightarrow> world \<Rightarrow> string list \<times> path" where
  "sync_command E w =
     (if os_path_exists (fs w) (script_dir E @ [''framework''])
      then (git_pull, script_dir E @ [''framework''])
      else (git_clone, script_dir E))"

definition starts :: "env \<Rightarrow> string list \<Rightarrow> path \<Rightarrow> world \<Rightarrow> bool" where
  "starts E argv cwd w =
     (os_path_isdir (fs w) cwd \<and> fst (proc E argv cwd (fs w)) \<noteq> NoSuchProgram)"

definition example_pack :: world where
  "example_pack = \<lparr>fs = Dir [(''pack'', Dir [(''framework'', Dir [])])], out = []\<rparr>"

definition example_env :: env where
  "example_env =
     \<lparr>script_dir = [''pack''], denied = (\<lambda>p. False),
      unreadable = (\<lambda>p. False), unwritable = (\<lambda>p. False), proc = (\<lambda>argv cwd t. (Exit 1, t))\<rparr>"

definition example_env_no_git :: env where
  "example_env_no_git =
     \<lparr>script_dir = [''pack''], denied = (\<lambda>p. False),
      unreadable = (\<lambda>p. False), unwritable = (\<lambda>p. False), proc = (\<lambda>argv cwd t. (NoSuchProgram, t))\<rparr>"

definition example_release :: world where
  "example_release =
     \<lparr>fs = Dir [(''pack'', Dir [(''release'', Dir [(''old'', Dir [(''pack.toml'', File ''x'')])])])],
      out = []\<rparr>"


definition example_env_locked :: env where
  "example_env_locked =
     \<lparr>script_dir = [''pack''], denied = (\<lambda>p. p = [''out'', ''a'']),
      unreadable = (\<lambda>p. False), unwritable = (\<lambda>p. False),
      proc = (\<lambda>argv cwd t. (Exit 0, t))\<rparr>"

definition example_removal :: world where
  "example_removal =
     \<lparr>fs = Dir [(''out'', Dir [(''a'', File ''1''), (''b'', File ''2''),
                               (''filesToRemove.txt'', File (''a'' @ [CHR 0x0A] @ ''b'' @ [CHR 0x0A]))])],
      out = []\<rparr>"

definition example_escape :: world where
  "example_escape =
     \<lparr>fs = Dir [(''etc'', Dir [(''victim'', File ''v'')]),
               (''sibling'', Dir [(''s'', File ''1'')]),
               (''out'', Dir [(''filesToRemove.txt'',
                              File (''/etc/victim'' @ [CHR 0x0A] @ ''../sibling'' @ [CHR 0x0A]))])],
      out = []\<rparr>"

text \<open>
  A plain component is a name: not empty, without a slash, and neither \<^verbatim>\<open>.\<close> nor
  \<^verbatim>\<open>..\<close>. A plain relative line consists of plain components.
\<close>

definition plain :: "string \<Rightarrow> bool" where
  "plain c = (c \<noteq> [] \<and> CHR ''/'' \<notin> set c \<and> c \<noteq> ''.'' \<and> c \<noteq> ''..'')"

definition plain_relative :: "string \<Rightarrow> bool" where
  "plain_relative s = list_all plain (split_on CHR ''/'' s)"

definition example_list :: world where
  "example_list =
     \<lparr>fs = Dir [(''out'', Dir [(''f.txt'', File ''1''), (''d'', Dir [(''x'', File ''2'')]),
                               (''filesToRemove.txt'',
                                File (''f.txt'' @ [CHR 0xC2, CHR 0xA0, CHR 0x0D, CHR 0x0A] @ ''d'' @
                                      [CHR 0x0A] @ ''missing'' @ [CHR 0x0A]))])],
      out = []\<rparr>"

text \<open>Looking a path up below an entry that may be missing.\<close>

definition olookup :: "node option \<Rightarrow> path \<Rightarrow> node option" where
  "olookup d p = (case d of None \<Rightarrow> None | Some n \<Rightarrow> lookup n p)"

text \<open>
  \<open>file_path t T q\<close>: below the directory \<open>T\<close> of the tree \<open>t\<close>, the relative path \<open>q\<close> is
  the path of a file or of nothing: \<open>T/q\<close> is not a directory and no proper prefix of
  \<open>q\<close> is a regular file below \<open>T\<close>.
\<close>

definition file_path :: "node \<Rightarrow> path \<Rightarrow> path \<Rightarrow> bool" where
  "file_path t T q =
     (\<not> os_path_isdir t (T @ q) \<and>
      list_all (\<lambda>p. p = q \<or> \<not> os_path_isfile t (T @ p)) (prefixes q))"

definition example_config_env :: env where
  "example_config_env =
     \<lparr>script_dir = [''pack''], denied = (\<lambda>p. False),
      unreadable = (\<lambda>p. False), unwritable = (\<lambda>p. False), proc = (\<lambda>argv cwd t. (Exit 0, t))\<rparr>"

definition example_tiers :: world where
  "example_tiers =
     \<lparr>fs = Dir [(''pack'', Dir [
        (''framework'', Dir [(''packwiz'', Dir [(''forge'', Dir [(''1.20.1'', Dir [
            (''giga'', Dir [(''pack.toml'', File ''g'')]),
            (''server'', Dir [(''pack.toml'', File ''s'')])])])])]),
        (''mod'', Dir [(''forge'', Dir [(''all'', Dir [
            (''server'', Dir [(''mods'', Dir [(''a.jar'', File ''sa''), (''b.jar'', File ''sb'')])]),
            (''nano'', Dir [(''mods'', Dir [(''b.jar'', File ''nb''), (''c.jar'', File ''nc'')])]),
            (''giga'', Dir [(''mods'', Dir [(''c.jar'', File ''gc'')])])])])])])],
      out = []\<rparr>"

text \<open>\<open>clear s q\<close>: no proper prefix of \<open>q\<close> is a regular file in \<open>s\<close>.\<close>

definition clear :: "node \<Rightarrow> path \<Rightarrow> bool" where
  "clear s q = (\<forall>p. strict_prefix p q \<longrightarrow> \<not> os_path_isfile s p)"


section \<open>Lemmas on the directory tree and the merge\<close>

lemma copytree_into_Cons:
  "copytree_into (Dir ((k, m) # ses)) des =
     (case copy_item k m (map_of des k) of (e, v) \<Rightarrow>
        (case copytree_into (Dir ses) (set_slot k v des) of (b, des') \<Rightarrow>
           (e \<noteq> None \<or> b, des')))"
  by (cases m) (auto simp: copy_item_def copytree_slot_def set_slot_def AList.update_triv
        split: option.splits node.splits prod.splits)

lemma copy_item_Some: "copy_item k m d = (e, v) \<Longrightarrow> v \<noteq> None"
  by (auto simp: copy_item_def copytree_slot_def copy2_slot_def
        split: option.splits node.splits prod.splits if_splits)

lemma map_of_set_slot_other: "j \<noteq> k \<Longrightarrow> map_of (set_slot k v des) j = map_of des j"
  by (auto simp: set_slot_def AList.update_conv' split: option.splits)

lemma map_of_set_slot_same: "v \<noteq> None \<Longrightarrow> map_of (set_slot k v des) k = v"
  by (auto simp: set_slot_def AList.update_conv' split: option.splits)

lemma copytree_into_frame:
  "copytree_into (Dir ses) des = (b, des') \<Longrightarrow> j \<notin> fst ` set ses \<Longrightarrow> map_of des' j = map_of des j"
proof (induction ses arbitrary: des b des')
  case Nil
  then show ?case by simp
next
  case (Cons a ses)
  obtain k m where a: "a = (k, m)" by (cases a)
  from Cons.prems a have jk: "j \<noteq> k" and j: "j \<notin> fst ` set ses" by auto
  obtain e v where ci: "copy_item k m (map_of des k) = (e, v)" by (cases "copy_item k m (map_of des k)")
  obtain b2 where r: "copytree_into (Dir ses) (set_slot k v des) = (b2, des')"
    using Cons.prems(1) by (auto simp: a copytree_into_Cons ci split: prod.splits)
  show ?case
    using Cons.IH [OF r j] jk by (simp add: map_of_set_slot_other)
qed

lemma copy_items_frame:
  "copy_items ses des = (e, des') \<Longrightarrow> j \<notin> fst ` set ses \<Longrightarrow> map_of des' j = map_of des j"
proof (induction ses arbitrary: des e des')
  case Nil
  then show ?case by simp
next
  case (Cons a ses)
  obtain k m where a: "a = (k, m)" by (cases a)
  from Cons.prems a have jk: "j \<noteq> k" and j: "j \<notin> fst ` set ses" by auto
  obtain e1 v where ci: "copy_item k m (map_of des k) = (e1, v)" by (cases "copy_item k m (map_of des k)")
  show ?case
  proof (cases e1)
    case None
    with Cons.prems(1) have r: "copy_items ses (set_slot k v des) = (e, des')"
      by (simp add: a ci)
    show ?thesis using Cons.IH [OF r j] jk by (simp add: map_of_set_slot_other)
  next
    case (Some x)
    with Cons.prems(1) have "des' = set_slot k v des" by (simp add: a ci)
    then show ?thesis using jk by (simp add: map_of_set_slot_other)
  qed
qed







lemma lookup_Dir_Cons:
  "lookup (Dir es) (k # ks) = (case map_of es k of None \<Rightarrow> None | Some m \<Rightarrow> lookup m ks)"
  by simp

lemma lookup_append:
  "lookup t (p @ q) = (case lookup t p of None \<Rightarrow> None | Some m \<Rightarrow> lookup m q)"
proof (induction p arbitrary: t)
  case Nil
  then show ?case by simp
next
  case (Cons k ks)
  then show ?case by (cases t) (auto split: option.splits)
qed

lemma makedirs_existing:
  "lookup t p = Some (Dir es) \<Longrightarrow> makedirs t p = Inr t"
proof (induction p arbitrary: t)
  case Nil
  then show ?case by simp
next
  case (Cons k ks)
  then show ?case
    by (cases t) (auto simp: AList.update_triv split: option.splits)
qed

lemma lookup_makedirs:
  "makedirs t p = Inr t' \<Longrightarrow> \<exists>es. lookup t' p = Some (Dir es)"
proof (induction p arbitrary: t t')
  case Nil
  then show ?case by (cases t) auto
next
  case (Cons k ks)
  then show ?case
    by (cases t) (auto simp: AList.update_conv' split: option.splits sum.splits)
qed

lemma lookup_put_same:
  "lookup t p = Some x \<Longrightarrow> lookup (put t p v) p = Some v"
proof (induction p arbitrary: t x)
  case Nil
  then show ?case by simp
next
  case (Cons k ks)
  then show ?case
    by (cases t) (auto simp: AList.update_conv' split: option.splits)
qed


lemma lookup_put_separate:
  "separate p q \<Longrightarrow> lookup (put t p v) q = lookup t q"
proof (induction p arbitrary: t q)
  case Nil
  then show ?case by (simp add: separate_def)
next
  case (Cons k ks)
  then obtain j js where q: "q = j # js" by (cases q) (auto simp: separate_def)
  show ?case
  proof (cases t)
    case (File c)
    then show ?thesis by simp
  next
    case (Dir es)
    show ?thesis
    proof (cases "j = k")
      case False
      then show ?thesis by (auto simp: Dir q AList.update_conv' split: option.splits)
    next
      case True
      with Cons.prems q have sep: "separate ks js" by (simp add: separate_def)
      then have "ks \<noteq> []" by (auto simp: separate_def)
      then show ?thesis using Cons.IH [OF sep] True
        by (auto simp: Dir q AList.update_conv' split: option.splits)
    qed
  qed
qed

lemma lookup_makedirs_separate:
  "makedirs t p = Inr t' \<Longrightarrow> separate p q \<Longrightarrow> lookup t' q = lookup t q"
proof (induction p arbitrary: t t' q)
  case Nil
  then show ?case by (simp add: separate_def)
next
  case (Cons k ks)
  then obtain j js where q: "q = j # js" by (cases q) (auto simp: separate_def)
  show ?case
  proof (cases t)
    case (File c)
    with Cons.prems show ?thesis by simp
  next
    case (Dir es)
    obtain m' where m': "makedirs (case map_of es k of None \<Rightarrow> Dir [] | Some m \<Rightarrow> m) ks = Inr m'"
      and t': "t' = Dir (AList.update k m' es)"
      using Cons.prems(1) by (auto simp: Dir split: sum.splits)
    show ?thesis
    proof (cases "j = k")
      case False
      then show ?thesis by (auto simp: Dir q t' AList.update_conv' split: option.splits)
    next
      case True
      with Cons.prems q have sep: "separate ks js" by (simp add: separate_def)
      then obtain i js2 where js: "js = i # js2" by (cases js) (auto simp: separate_def)
      show ?thesis using Cons.IH [OF m' sep] True
        by (auto simp: Dir q t' js AList.update_conv' split: option.splits)
    qed
  qed
qed

lemma wf_node_lookup:
  "wf_node t \<Longrightarrow> lookup t p = Some m \<Longrightarrow> wf_node m"
proof (induction p arbitrary: t)
  case Nil
  then show ?case by simp
next
  case (Cons k ks)
  show ?case
  proof (cases t)
    case (File c)
    with Cons.prems show ?thesis by simp
  next
    case (Dir es)
    with Cons.prems obtain n where n: "map_of es k = Some n" and l: "lookup n ks = Some m"
      by (auto split: option.splits)
    from n have "n \<in> snd ` set es" by (metis map_of_SomeD snd_conv image_eqI)
    with Cons.prems(1) Dir have "wf_node n" by auto
    then show ?thesis using l by (rule Cons.IH)
  qed
qed


lemma keeps_refl: "keeps t t"
  by (simp add: keeps_def)

lemma keeps_trans: "keeps a b \<Longrightarrow> keeps b c \<Longrightarrow> keeps a c"
  by (simp add: keeps_def)

lemma keeps_File_File: "keeps (File x) (File c)"
  unfolding keeps_def
proof (intro allI)
  fix q
  show "(os_path_isfile (File x) q \<longrightarrow> os_path_isfile (File c) q) \<and>
        (os_path_isdir (File x) q \<longrightarrow> os_path_isdir (File c) q)"
    by (cases q) (simp_all add: os_path_isfile_def os_path_isdir_def)
qed

lemma keeps_Dir_update:
  assumes "okeeps (map_of es k) (Some m')"
  shows "keeps (Dir es) (Dir (AList.update k m' es))"
  unfolding keeps_def
proof (intro allI)
  fix q
  show "(os_path_isfile (Dir es) q \<longrightarrow> os_path_isfile (Dir (AList.update k m' es)) q) \<and>
        (os_path_isdir (Dir es) q \<longrightarrow> os_path_isdir (Dir (AList.update k m' es)) q)"
  proof (cases q)
    case Nil
    then show ?thesis by (simp add: os_path_isfile_def os_path_isdir_def)
  next
    case (Cons j js)
    show ?thesis
    proof (cases "j = k")
      case False
      then show ?thesis
        by (simp add: Cons os_path_isfile_def os_path_isdir_def AList.update_conv')
    next
      case True
      show ?thesis
      proof (cases "map_of es k")
        case None
        then show ?thesis
          by (simp add: Cons True os_path_isfile_def os_path_isdir_def)
      next
        case (Some m)
        with assms have "keeps m m'" by (simp add: okeeps_def)
        then show ?thesis
          using Some
          by (simp add: Cons True keeps_def os_path_isfile_def os_path_isdir_def AList.update_conv')
      qed
    qed
  qed
qed

lemma keeps_set_slot:
  "okeeps (map_of des k) v \<Longrightarrow> keeps (Dir des) (Dir (set_slot k v des))"
  by (cases v) (auto simp: set_slot_def keeps_refl intro: keeps_Dir_update)

lemma keeps_put:
  "lookup t p = Some m \<Longrightarrow> keeps m v \<Longrightarrow> keeps t (put t p v)"
proof (induction p arbitrary: t)
  case Nil
  then show ?case by simp
next
  case (Cons k ks)
  show ?case
  proof (cases t)
    case (File c)
    with Cons.prems show ?thesis by simp
  next
    case (Dir es)
    with Cons.prems obtain n where n: "map_of es k = Some n" and l: "lookup n ks = Some m"
      by (auto split: option.splits)
    show ?thesis
    proof (cases "ks = []")
      case True
      with l Cons.prems(2) n show ?thesis
        by (auto simp: Dir okeeps_def intro!: keeps_Dir_update)
    next
      case False
      have "keeps n (put n ks v)" by (rule Cons.IH [OF l Cons.prems(2)])
      then show ?thesis using False n
        by (auto simp: Dir okeeps_def intro!: keeps_Dir_update)
    qed
  qed
qed

lemma keeps_makedirs:
  "makedirs t p = Inr t' \<Longrightarrow> keeps t t'"
proof (induction p arbitrary: t t')
  case Nil
  then show ?case by (cases t) (auto simp: keeps_refl)
next
  case (Cons k ks)
  show ?case
  proof (cases t)
    case (File c)
    with Cons.prems show ?thesis by simp
  next
    case (Dir es)
    obtain m' where m': "makedirs (case map_of es k of None \<Rightarrow> Dir [] | Some m \<Rightarrow> m) ks = Inr m'"
      and t': "t' = Dir (AList.update k m' es)"
      using Cons.prems(1) by (auto simp: Dir split: sum.splits)
    have "keeps (case map_of es k of None \<Rightarrow> Dir [] | Some m \<Rightarrow> m) m'"
      by (rule Cons.IH [OF m'])
    then have "okeeps (map_of es k) (Some m')"
      by (auto simp: okeeps_def split: option.splits)
    then show ?thesis unfolding Dir t' by (rule keeps_Dir_update)
  qed
qed

lemma okeeps_copy2_slot:
  "copy2_slot k c d = (e, v) \<Longrightarrow> okeeps d v"
proof (cases d)
  case None
  then show ?thesis by (simp add: okeeps_def)
next
  case (Some n)
  assume c: "copy2_slot k c d = (e, v)"
  show ?thesis
  proof (cases n)
    case (File x)
    with c Some have "v = Some (File c)" by (auto simp: copy2_slot_def)
    then show ?thesis
      by (simp add: Some File okeeps_def keeps_File_File)
  next
    case (Dir sub)
    show ?thesis
    proof (cases "\<exists>x. map_of sub k = Some (Dir x)")
      case True
      with c Some Dir have "v = Some (Dir sub)" by (auto simp: copy2_slot_def)
      then show ?thesis by (simp add: Some Dir okeeps_def keeps_refl)
    next
      case False
      with c Some Dir have v: "v = Some (Dir (AList.update k (File c) sub))"
        by (auto simp: copy2_slot_def split: option.splits node.splits)
      have "okeeps (map_of sub k) (Some (File c))"
      proof (cases "map_of sub k")
        case None
        then show ?thesis by (simp add: okeeps_def)
      next
        case (Some y)
        with False obtain z where "y = File z" by (cases y) auto
        then show ?thesis
          by (simp add: Some okeeps_def keeps_File_File)
      qed
      then have "keeps (Dir sub) (Dir (AList.update k (File c) sub))" by (rule keeps_Dir_update)
      then show ?thesis by (simp add: Some Dir v okeeps_def)
    qed
  qed
qed


lemma okeeps_copytree_slot:
  assumes ih: "\<And>des b des'. copytree_into (Dir sub) des = (b, des') \<Longrightarrow> keeps (Dir des) (Dir des')"
    and c: "copytree_slot sub d = (e, v)"
  shows "okeeps d v"
proof (cases d)
  case None
  then show ?thesis by (simp add: okeeps_def)
next
  case (Some n)
  show ?thesis
  proof (cases n)
    case (File x)
    with c Some show ?thesis by (auto simp: copytree_slot_def okeeps_def keeps_refl)
  next
    case (Dir dsub)
    obtain b sub' where r: "copytree_into (Dir sub) dsub = (b, sub')"
      by (cases "copytree_into (Dir sub) dsub")
    with c Some Dir have "v = Some (Dir sub')" by (auto simp: copytree_slot_def)
    then show ?thesis using ih [OF r] by (simp add: Some Dir okeeps_def)
  qed
qed

lemma keeps_copytree_into:
  "copytree_into s des = (b, des') \<Longrightarrow> keeps (Dir des) (Dir des')"
proof (induction "size s" arbitrary: s des b des' rule: less_induct)
  case less
  show ?case
  proof (cases s)
    case (File c)
    with less.prems show ?thesis by (simp add: keeps_refl)
  next
    case (Dir ses0)
    show ?thesis
    proof (cases ses0)
      case Nil
      with Dir less.prems show ?thesis by (simp add: keeps_refl)
    next
      case (Cons a ses)
      obtain k m where a: "a = (k, m)" by (cases a)
      have s: "s = Dir ((k, m) # ses)" by (simp add: Dir Cons a)
      obtain e v where ci: "copy_item k m (map_of des k) = (e, v)"
        by (cases "copy_item k m (map_of des k)")
      obtain b2 where r: "copytree_into (Dir ses) (set_slot k v des) = (b2, des')"
        using less.prems by (auto simp: s copytree_into_Cons ci split: prod.splits)
      have ok: "okeeps (map_of des k) v"
      proof (cases m)
        case (File c)
        with ci show ?thesis by (simp add: copy_item_def okeeps_copy2_slot)
      next
        case (Dir sub)
        have sz: "size (Dir sub) < size s" by (simp add: s Dir)
        from ci have "copytree_slot sub (map_of des k) = (e, v)"
          by (simp add: copy_item_def Dir)
        then show ?thesis
          using less.hyps [OF sz] by (rule okeeps_copytree_slot [rotated])
      qed
      have sz2: "size (Dir ses) < size s" by (simp add: s)
      have "keeps (Dir (set_slot k v des)) (Dir des')" by (rule less.hyps [OF sz2 r])
      with keeps_set_slot [OF ok] show ?thesis by (rule keeps_trans)
    qed
  qed
qed

lemma okeeps_copy_item:
  assumes "copy_item k m d = (e, v)"
  shows "okeeps d v"
proof (cases m)
  case (File c)
  with assms show ?thesis by (simp add: copy_item_def okeeps_copy2_slot)
next
  case (Dir sub)
  with assms have "copytree_slot sub d = (e, v)" by (simp add: copy_item_def)
  then show ?thesis using keeps_copytree_into by (rule okeeps_copytree_slot [rotated])
qed

lemma keeps_copy_items:
  "copy_items ses des = (e, des') \<Longrightarrow> keeps (Dir des) (Dir des')"
proof (induction ses arbitrary: des e des')
  case Nil
  then show ?case by (simp add: keeps_refl)
next
  case (Cons a ses)
  obtain k m where a: "a = (k, m)" by (cases a)
  obtain e1 v where ci: "copy_item k m (map_of des k) = (e1, v)"
    by (cases "copy_item k m (map_of des k)")
  have st: "keeps (Dir des) (Dir (set_slot k v des))"
    by (rule keeps_set_slot [OF okeeps_copy_item [OF ci]])
  show ?case
  proof (cases e1)
    case None
    with Cons.prems have r: "copy_items ses (set_slot k v des) = (e, des')"
      by (simp add: a ci)
    from st Cons.IH [OF r] show ?thesis by (rule keeps_trans)
  next
    case (Some x)
    with Cons.prems have "des' = set_slot k v des" by (simp add: a ci)
    with st show ?thesis by simp
  qed
qed

lemma keeps_copy_directory_contents:
  assumes run: "copy_directory_contents src dest w = (e, w')"
  shows "keeps (fs w) (fs w')"
proof (cases "os_path_exists (fs w) src")
  case False
  with run show ?thesis by (auto simp: copy_directory_contents_def keeps_refl)
next
  case ex: True
  show ?thesis
  proof (cases "makedirs (fs w) dest")
    case (Inl x)
    with run ex show ?thesis by (auto simp: copy_directory_contents_def keeps_refl)
  next
    case (Inr fs1)
    have k1: "keeps (fs w) fs1" by (rule keeps_makedirs [OF Inr])
    obtain des where des: "lookup fs1 dest = Some (Dir des)"
      using lookup_makedirs [OF Inr] by blast
    show ?thesis
    proof (cases "os_listdir fs1 src")
      case (Inl x)
      with run ex Inr have "w' = w\<lparr>fs := fs1\<rparr>"
        by (auto simp: copy_directory_contents_def)
      with k1 show ?thesis by simp
    next
      case ls: (Inr ses)
      show ?thesis
      proof (cases "src = dest")
        case True
        with run ex Inr ls have "w' = w\<lparr>fs := fs1\<rparr>"
          by (auto simp: copy_directory_contents_def)
        with k1 show ?thesis by simp
      next
        case False
        obtain des' where ci: "copy_items ses des = (e, des')"
          and w': "w' = w\<lparr>fs := put fs1 dest (Dir des')\<rparr>"
          using run ex Inr ls des False
          by (auto simp: copy_directory_contents_def split: prod.splits)
        have "keeps fs1 (put fs1 dest (Dir des'))"
          by (rule keeps_put [OF des keeps_copy_items [OF ci]])
        with k1 have "keeps (fs w) (put fs1 dest (Dir des'))" by (rule keeps_trans)
        then show ?thesis by (simp add: w')
      qed
    qed
  qed
qed


section \<open>Lemmas on text replacement\<close>






section \<open>Lemmas on external commands\<close>

lemma runs_append: "runs (xs @ ys) = runs xs @ runs ys"
  by (induction xs rule: runs.induct) auto

lemma subprocess_run_cases:
  assumes "subprocess_run E argv cwd w = (e, w')"
  shows "(starts E argv cwd w \<longrightarrow>
            (\<exists>n t. proc E argv cwd (fs w) = (Exit n, t) \<and>
                   e = (if n = 0 then None else Some CalledProcessError) \<and>
                   w' = w\<lparr>fs := t, out := out w @ [Run argv cwd]\<rparr>)) \<and>
         (\<not> starts E argv cwd w \<longrightarrow>
            e \<noteq> None \<and> e \<noteq> Some CalledProcessError \<and> w' = w)"
proof (cases "lookup (fs w) cwd")
  case None
  with assms show ?thesis
    by (auto simp: subprocess_run_def starts_def os_path_isdir_def)
next
  case (Some m)
  show ?thesis
  proof (cases m)
    case (File c)
    with assms Some show ?thesis
      by (auto simp: subprocess_run_def starts_def os_path_isdir_def)
  next
    case (Dir es)
    obtain r t where p: "proc E argv cwd (fs w) = (r, t)" by (cases "proc E argv cwd (fs w)")
    show ?thesis
    proof (cases r)
      case (Exit n)
      with assms Some Dir p show ?thesis
        by (auto simp: subprocess_run_def starts_def os_path_isdir_def)
    next
      case NoSuchProgram
      with assms Some Dir p show ?thesis
        by (auto simp: subprocess_run_def starts_def os_path_isdir_def)
    qed
  qed
qed


section \<open>Lemmas on creating and removing directories\<close>

lemma makedirs_fresh:
  "makedirs t p = Inr t' \<Longrightarrow> lookup t p = None \<Longrightarrow> lookup t' p = Some (Dir [])"
proof (induction p arbitrary: t t')
  case Nil
  then show ?case by simp
next
  case (Cons k ks)
  show ?case
  proof (cases t)
    case (File c)
    with Cons.prems show ?thesis by simp
  next
    case (Dir es)
    let ?child = "case map_of es k of None \<Rightarrow> Dir [] | Some m \<Rightarrow> m"
    obtain m' where m': "makedirs ?child ks = Inr m'"
      and t': "t' = Dir (AList.update k m' es)"
      using Cons.prems(1) by (auto simp: Dir split: sum.splits)
    have l: "lookup t' (k # ks) = lookup m' ks" by (simp add: t' AList.update_conv')
    show ?thesis
    proof (cases "ks = []")
      case True
      with Cons.prems(2) Dir have "map_of es k = None" by (auto split: option.splits)
      with m' True have "m' = Dir []" by simp
      with l True show ?thesis by simp
    next
      case False
      have "lookup ?child ks = None"
        using Cons.prems(2) False by (cases ks) (auto simp: Dir split: option.splits)
      from Cons.IH [OF m' this] l show ?thesis by simp
    qed
  qed
qed

lemma makedirs_below_dir:
  "\<not> os_path_exists t (p @ [k]) \<Longrightarrow> os_path_isdir t p \<Longrightarrow> \<exists>t'. makedirs t (p @ [k]) = Inr t'"
proof (induction p arbitrary: t)
  case Nil
  then show ?case
    by (cases t) (auto simp: os_path_isdir_def os_path_exists_def split: option.splits)
next
  case (Cons j js)
  show ?case
  proof (cases t)
    case (File c)
    with Cons.prems show ?thesis by (simp add: os_path_isdir_def)
  next
    case (Dir es)
    with Cons.prems(2) obtain m where m: "map_of es j = Some m" and d: "os_path_isdir m js"
      by (auto simp: os_path_isdir_def split: option.splits)
    from Cons.prems(1) Dir m have "\<not> os_path_exists m (js @ [k])"
      by (simp add: os_path_exists_def)
    from Cons.IH [OF this d] show ?thesis by (auto simp: Dir m)
  qed
qed

lemma lookup_delete_at_same:
  "p \<noteq> [] \<Longrightarrow> lookup (delete_at t p) p = None"
proof (induction p arbitrary: t)
  case Nil
  then show ?case by simp
next
  case (Cons k ks)
  show ?case
  proof (cases t)
    case (File c)
    then show ?thesis by simp
  next
    case (Dir es)
    show ?thesis
    proof (cases "ks = []")
      case True
      then show ?thesis by (simp add: Dir AList.delete_conv')
    next
      case False
      then show ?thesis using Cons.IH [OF False]
        by (auto simp: Dir AList.update_conv' split: option.splits)
    qed
  qed
qed

lemma lookup_delete_at_separate:
  "separate p q \<Longrightarrow> lookup (delete_at t p) q = lookup t q"
proof (induction p arbitrary: t q)
  case Nil
  then show ?case by (simp add: separate_def)
next
  case (Cons k ks)
  then obtain j js where q: "q = j # js" by (cases q) (auto simp: separate_def)
  show ?case
  proof (cases t)
    case (File c)
    then show ?thesis by simp
  next
    case (Dir es)
    show ?thesis
    proof (cases "j = k")
      case False
      then show ?thesis
        by (auto simp: Dir q AList.update_conv' AList.delete_conv' split: option.splits)
    next
      case True
      with Cons.prems q have sep: "separate ks js" by (simp add: separate_def)
      then have "ks \<noteq> []" by (auto simp: separate_def)
      then show ?thesis using Cons.IH [OF sep] True
        by (auto simp: Dir q AList.update_conv' split: option.splits)
    qed
  qed
qed

lemma isdir_delete_at_above:
  "os_path_isdir t q \<Longrightarrow> strict_prefix q p \<Longrightarrow> os_path_isdir (delete_at t p) q"
proof (induction p arbitrary: t q)
  case Nil
  then show ?case by simp
next
  case (Cons k ks)
  show ?case
  proof (cases t)
    case (File c)
    with Cons.prems show ?thesis by simp
  next
    case (Dir es)
    show ?thesis
    proof (cases q)
      case Nil
      then show ?thesis by (auto simp: Dir os_path_isdir_def split: option.splits)
    next
      case (Cons j js)
      with Cons.prems(2) have jk: "j = k" and sp: "strict_prefix js ks" by auto
      from Cons.prems(1) Dir Cons jk obtain m where m: "map_of es k = Some m"
        and d: "os_path_isdir m js" by (auto simp: os_path_isdir_def split: option.splits)
      from sp have "ks \<noteq> []" by auto
      then show ?thesis using Cons.IH [OF d sp] m
        by (auto simp: Dir Cons jk os_path_isdir_def AList.update_conv')
    qed
  qed
qed

lemma strict_prefix_snoc: "strict_prefix p (p @ [k])"
  by (auto simp: strict_prefix_def)

lemma strict_prefix_snoc_trans: "strict_prefix (p @ [k]) q \<Longrightarrow> strict_prefix p q"
  by (auto simp: strict_prefix_def prefix_def)

lemma rmtree_entries_ok:
  "(\<And>q. strict_prefix p q \<Longrightarrow> \<not> dn q) \<Longrightarrow> fst (rmtree_entries dn p t) = None"
proof (induction dn p t rule: rmtree_entries.induct)
  case (1 dn p c)
  then show ?case by simp
next
  case (2 dn p)
  then show ?case by simp
next
  case (3 dn p k c es)
  have "\<not> dn (p @ [k])" by (rule "3.prems") (rule strict_prefix_snoc)
  then show ?case using 3 by simp
next
  case (4 dn p k sub es)
  have nd: "\<not> dn (p @ [k])" by (rule "4.prems") (rule strict_prefix_snoc)
  have "\<And>q. strict_prefix (p @ [k]) q \<Longrightarrow> \<not> dn q"
  proof -
    fix q assume "strict_prefix (p @ [k]) q"
    then have "strict_prefix p q" by (rule strict_prefix_snoc_trans)
    then show "\<not> dn q" by (rule "4.prems")
  qed
  then have "fst (rmtree_entries dn (p @ [k]) (Dir sub)) = None" by (rule "4.IH"(1))
  then obtain m where r: "rmtree_entries dn (p @ [k]) (Dir sub) = (None, m)"
    by (cases "rmtree_entries dn (p @ [k]) (Dir sub)") auto
  have "fst (rmtree_entries dn p (Dir es)) = None"
    using "4.IH"(2) [OF r [symmetric] _ nd] "4.prems" by auto
  then show ?case using r nd by simp
qed

lemma separate_siblings: "a \<noteq> b \<Longrightarrow> separate (p @ [a]) (p @ [b])"
  by (simp add: separate_def)

lemma separate_sym: "separate p q \<Longrightarrow> separate q p"
  by (auto simp: separate_def)

lemma shutil_rmtree_ok:
  assumes d: "lookup (fs w) p = Some (Dir es)" and p: "p \<noteq> []"
    and nd: "\<forall>q. prefix p q \<longrightarrow> \<not> denied E q"
  shows "shutil_rmtree E p True w = (None, w\<lparr>fs := delete_at (fs w) p\<rparr>)"
proof -
  have "fst (rmtree_entries (denied E) p (Dir es)) = None"
    by (rule rmtree_entries_ok) (use nd in auto)
  then obtain m where "rmtree_entries (denied E) p (Dir es) = (None, m)"
    by (cases "rmtree_entries (denied E) p (Dir es)") auto
  moreover have "\<not> denied E p" using nd by auto
  ultimately show ?thesis using d p by (simp add: shutil_rmtree_def)
qed


section \<open>Lemmas on the removal list\<close>

lemma remove_listed_append:
  "remove_listed E op (ls @ rest) w =
     (case remove_listed E op ls w of
        (Some e, w') \<Rightarrow> (Some e, w')
      | (None, w') \<Rightarrow> remove_listed E op rest w')"
proof (induction ls arbitrary: w)
  case Nil
  then show ?case by simp
next
  case (Cons l ls)
  show ?case
    by (simp add: Cons.IH Let_def split: option.splits prod.splits)
qed


lemma split_on_nonempty: "split_on d s \<noteq> []"
  by (induction s) (auto split: list.splits)

lemma split_on_append:
  "split_on d (a @ d # b) = split_on d a @ split_on d b"
proof (induction a)
  case Nil
  then show ?case by simp
next
  case (Cons c a)
  show ?case
  proof (cases "c = d")
    case True
    then show ?thesis using Cons by simp
  next
    case False
    obtain x xs where x: "split_on d a = x # xs"
      using split_on_nonempty [of d a] by (cases "split_on d a") auto
    show ?thesis using False Cons x by simp
  qed
qed

lemma split_on_single: "d \<notin> set c \<Longrightarrow> split_on d c = [c]"
  by (induction c) auto

lemma split_on_path_string_aux:
  "\<forall>c \<in> set p. CHR ''/'' \<notin> set c \<Longrightarrow>
   split_on CHR ''/'' (concat (map (\<lambda>c. CHR ''/'' # c) p)) = (if p = [] then [[]] else [] # p)"
proof (induction p)
  case Nil
  then show ?case by simp
next
  case (Cons c p)
  have c: "split_on CHR ''/'' c = [c]" using Cons.prems by (simp add: split_on_single)
  show ?case
  proof (cases "p = []")
    case True
    then show ?thesis using c by simp
  next
    case False
    then obtain c' p' where p: "p = c' # p'" by (cases p) auto
    let ?Y = "c' @ concat (map (\<lambda>c. CHR ''/'' # c) p')"
    have "split_on CHR ''/'' (CHR ''/'' # ?Y) = [] # p"
      using Cons.IH Cons.prems False by (simp add: p)
    then have Y: "split_on CHR ''/'' ?Y = p" by simp
    have "split_on CHR ''/'' (c @ CHR ''/'' # ?Y) = [c] @ p"
      by (simp only: split_on_append c Y)
    then show ?thesis by (simp add: p)
  qed
qed

lemma split_on_path_string:
  "\<forall>c \<in> set p. CHR ''/'' \<notin> set c \<Longrightarrow> p \<noteq> [] \<Longrightarrow>
   split_on CHR ''/'' (path_string p) = [] # p"
  by (simp add: path_string_def split_on_path_string_aux)

lemma path_string_last:
  "\<forall>c \<in> set p. plain c \<Longrightarrow> p \<noteq> [] \<Longrightarrow> path_string p \<noteq> [] \<and> last (path_string p) \<noteq> CHR ''/''"
proof (induction p rule: rev_induct)
  case Nil
  then show ?case by simp
next
  case (snoc c p)
  then have "c \<noteq> []" "CHR ''/'' \<notin> set c" by (auto simp: plain_def)
  then have "last c \<noteq> CHR ''/''" by (metis last_in_set)
  then show ?case using \<open>c \<noteq> []\<close> by (simp add: path_string_def)
qed

lemma plain_relative_not_abs:
  "plain_relative s \<Longrightarrow> s \<noteq> [] \<and> hd s \<noteq> CHR ''/''"
  by (cases s) (auto simp: plain_relative_def plain_def split: if_splits)

lemma split_target:
  assumes "\<forall>c \<in> set p. plain c" "p \<noteq> []" "plain_relative s"
  shows "split_on CHR ''/'' (os_path_join (path_string p) s) = [] # p @ split_on CHR ''/'' s"
proof -
  have 1: "os_path_join (path_string p) s = path_string p @ CHR ''/'' # s"
    using path_string_last [OF assms(1,2)] plain_relative_not_abs [OF assms(3)]
    by (simp add: os_path_join_def)
  have 2: "\<forall>c \<in> set p. CHR ''/'' \<notin> set c" using assms(1) by (simp add: plain_def)
  show ?thesis by (simp add: 1 split_on_append split_on_path_string [OF 2 assms(2)])
qed

lemma isdir_prefix:
  assumes "os_path_isdir t (p @ q)"
  shows "os_path_isdir t p"
proof (cases q)
  case Nil
  with assms show ?thesis by simp
next
  case (Cons k ks)
  from assms obtain m where m: "lookup t p = Some m" and l: "lookup m (k # ks) \<noteq> None"
    by (auto simp: os_path_isdir_def lookup_append Cons split: option.splits)
  from l obtain es where "m = Dir es" by (cases m) auto
  with m show ?thesis by (simp add: os_path_isdir_def)
qed

lemma walk_append:
  "walk t cur (xs @ ys) = (case walk t cur xs of None \<Rightarrow> None | Some p \<Rightarrow> walk t p ys)"
  by (induction xs arbitrary: cur) auto

lemma walk_plain_dir:
  "list_all plain cs \<Longrightarrow> os_path_isdir t (cur @ cs) \<Longrightarrow> walk t cur cs = Some (cur @ cs)"
proof (induction cs arbitrary: cur)
  case Nil
  then show ?case by simp
next
  case (Cons c cs)
  have d: "os_path_isdir t cur" using Cons.prems(2) by (rule isdir_prefix)
  have pc: "c \<noteq> [] \<and> c \<noteq> ''.'' \<and> c \<noteq> ''..''" using Cons.prems(1) by (simp add: plain_def)
  have "walk t (cur @ [c]) cs = Some ((cur @ [c]) @ cs)"
    by (rule Cons.IH) (use Cons.prems in auto)
  then show ?case using d pc by simp
qed

lemma walk_plain:
  "list_all plain cs \<Longrightarrow>
   walk t cur cs = Some (cur @ cs) \<or> (walk t cur cs = None \<and> lookup t (cur @ cs) = None)"
proof (induction cs arbitrary: cur)
  case Nil
  then show ?case by simp
next
  case (Cons c cs)
  have pc: "c \<noteq> [] \<and> c \<noteq> ''.'' \<and> c \<noteq> ''..''" using Cons.prems(1) by (simp add: plain_def)
  show ?case
  proof (cases "os_path_isdir t cur")
    case True
    have "walk t (cur @ [c]) cs = Some ((cur @ [c]) @ cs) \<or>
          (walk t (cur @ [c]) cs = None \<and> lookup t ((cur @ [c]) @ cs) = None)"
      by (rule Cons.IH) (use Cons.prems in auto)
    then show ?thesis using True pc by simp
  next
    case False
    then have "lookup t (cur @ c # cs) = None"
      by (auto simp: os_path_isdir_def lookup_append split: option.splits node.splits)
    then show ?thesis using False by simp
  qed
qed

lemma resolve_target:
  assumes "\<forall>c \<in> set p. plain c" "p \<noteq> []" "plain_relative s" "os_path_isdir t p"
  shows "resolve t (os_path_join (path_string p) s) = Some (p @ split_on CHR ''/'' s) \<or>
         (resolve t (os_path_join (path_string p) s) = None \<and>
          lookup t (p @ split_on CHR ''/'' s) = None)"
proof -
  have r: "os_path_isdir t []" using isdir_prefix [of t "[]" p] assms(4) by simp
  have pl: "list_all plain p" using assms(1) by (simp add: list_all_iff)
  have w1: "walk t [] p = Some p" using walk_plain_dir [OF pl, of t "[]"] assms(4) by simp
  have "resolve t (os_path_join (path_string p) s) = walk t p (split_on CHR ''/'' s)"
    unfolding resolve_def split_target [OF assms(1-3)]
    using r w1 walk_append [of t "[]" p "split_on CHR ''/'' s"] by simp
  then show ?thesis using walk_plain [of "split_on CHR ''/'' s" t p] assms(3)
    by (simp add: plain_relative_def)
qed

lemma ends_in_dot_target:
  assumes "\<forall>c \<in> set p. plain c" "p \<noteq> []" "plain_relative s"
  shows "\<not> ends_in_dot (os_path_join (path_string p) s)"
proof -
  have ne: "split_on CHR ''/'' s \<noteq> []" by (rule split_on_nonempty)
  then have "last (split_on CHR ''/'' s) \<in> set (split_on CHR ''/'' s)" by simp
  then have "plain (last (split_on CHR ''/'' s))"
    using assms(3) by (simp add: plain_relative_def list_all_iff)
  then show ?thesis
    unfolding ends_in_dot_def split_target [OF assms] using ne by (auto simp: plain_def)
qed

lemma lookup_delete_at_absent:
  "lookup t q = None \<Longrightarrow> lookup (delete_at t p) q = None"
proof (induction p arbitrary: t q)
  case Nil
  then show ?case by simp
next
  case (Cons k ks)
  show ?case
  proof (cases t)
    case (File c)
    with Cons.prems show ?thesis by simp
  next
    case (Dir es)
    show ?thesis
    proof (cases q)
      case Nil
      with Cons.prems show ?thesis by simp
    next
      case q: (Cons j js)
      show ?thesis
      proof (cases "j = k")
        case False
        then show ?thesis using Cons.prems
          by (auto simp: Dir q AList.update_conv' AList.delete_conv' split: option.splits)
      next
        case True
        show ?thesis
        proof (cases "map_of es k")
          case None
          then show ?thesis by (auto simp: Dir q True AList.delete_conv')
        next
          case (Some m)
          with Cons.prems have "lookup m js = None" by (simp add: Dir q True)
          from Cons.IH [OF this] show ?thesis
            using Some by (auto simp: Dir q True AList.update_conv' AList.delete_conv')
        qed
      qed
    qed
  qed
qed

lemma lookup_delete_at_file:
  "lookup t q = Some (File c) \<Longrightarrow> \<not> prefix p q \<Longrightarrow> lookup (delete_at t p) q = Some (File c)"
proof (induction p arbitrary: t q)
  case Nil
  then show ?case by simp
next
  case (Cons k ks)
  show ?case
  proof (cases t)
    case (File x)
    with Cons.prems show ?thesis by simp
  next
    case (Dir es)
    show ?thesis
    proof (cases q)
      case Nil
      with Cons.prems Dir show ?thesis by simp
    next
      case q: (Cons j js)
      show ?thesis
      proof (cases "j = k")
        case False
        then show ?thesis using Cons.prems
          by (auto simp: Dir q AList.update_conv' AList.delete_conv' split: option.splits)
      next
        case True
        from Cons.prems(1) obtain m where m: "map_of es k = Some m" and l: "lookup m js = Some (File c)"
          by (auto simp: Dir q True split: option.splits)
        from Cons.prems(2) have np: "\<not> prefix ks js" by (simp add: q True)
        then have "ks \<noteq> []" by auto
        then show ?thesis using Cons.IH [OF l np] m
          by (auto simp: Dir q True AList.update_conv')
      qed
    qed
  qed
qed

lemma isdir_parent: "lookup t (p @ [k]) = Some x \<Longrightarrow> os_path_isdir t p"
proof -
  assume "lookup t (p @ [k]) = Some x"
  then obtain m where m: "lookup t p = Some m" and l: "lookup m [k] = Some x"
    by (auto simp: lookup_append split: option.splits)
  from l obtain es where "m = Dir es" by (cases m) auto
  with m show ?thesis by (simp add: os_path_isdir_def)
qed

lemma remove_listed_step:
  assumes pl: "\<forall>c \<in> set op. plain c" and ne: "op \<noteq> []" and nd: "\<forall>q. \<not> denied E q"
    and dir: "os_path_isdir (fs w) op"
    and lst: "lookup (fs w) (op @ [''filesToRemove.txt'']) = Some (File content)"
    and s: "strip l \<noteq> []" and pr: "plain_relative (strip l)"
    and nl: "split_on CHR ''/'' (strip l) \<noteq> [''filesToRemove.txt'']"
  shows "\<exists>w1. remove_listed E op (l # rest) w = remove_listed E op rest w1 \<and>
              os_path_isdir (fs w1) op \<and>
              lookup (fs w1) (op @ [''filesToRemove.txt'']) = Some (File content) \<and>
              out w1 = out w \<and>
              (\<forall>q. lookup (fs w) q = None \<longrightarrow> lookup (fs w1) q = None) \<and>
              lookup (fs w1) (op @ split_on CHR ''/'' (strip l)) = None"
proof -
  let ?cs = "split_on CHR ''/'' (strip l)"
  let ?T = "op @ ?cs"
  let ?tp = "os_path_join (path_string op) (strip l)"
  have cs: "?cs \<noteq> []" by (rule split_on_nonempty)
  have keep: "remove_listed E op (l # rest) w = remove_listed E op rest w"
    if "lookup (fs w) ?T = None"
  proof -
    from resolve_target [OF pl ne pr dir]
    have "resolve (fs w) ?tp = None \<or> resolve (fs w) ?tp = Some ?T" by blast
    then show ?thesis
      using s that by (auto simp: Let_def os_path_isfile_def os_path_isdir_def)
  qed
  have gone: "\<exists>w1. remove_listed E op (l # rest) w = remove_listed E op rest w1 \<and>
                    w1 = w\<lparr>fs := delete_at (fs w) ?T\<rparr>"
    if ex: "lookup (fs w) ?T = Some x" for x
  proof -
    from resolve_target [OF pl ne pr dir] ex
    have r: "resolve (fs w) ?tp = Some ?T" by auto
    show ?thesis
    proof (cases x)
      case (File c)
      have "os_remove E ?T w = (None, w\<lparr>fs := delete_at (fs w) ?T\<rparr>)"
        using ex File nd by (simp add: os_remove_def)
      then show ?thesis
        using s r ex File by (simp add: Let_def os_path_isfile_def)
    next
      case (Dir es)
      have t: "?T \<noteq> []" using ne by simp
      have nd': "\<forall>q. prefix ?T q \<longrightarrow> \<not> denied E q" using nd by simp
      have d: "lookup (fs w) ?T = Some (Dir es)" using ex Dir by simp
      have "shutil_rmtree E ?T True w = (None, w\<lparr>fs := delete_at (fs w) ?T\<rparr>)"
        by (rule shutil_rmtree_ok [OF d t nd'])
      then show ?thesis
        using s r ex Dir ends_in_dot_target [OF pl ne pr]
        by (simp add: Let_def os_path_isfile_def os_path_isdir_def)
    qed
  qed
  show ?thesis
  proof (cases "lookup (fs w) ?T")
    case None
    with keep dir lst show ?thesis by auto
  next
    case (Some x)
    from gone [OF Some] have rl: "remove_listed E op (l # rest) w =
        remove_listed E op rest (w\<lparr>fs := delete_at (fs w) ?T\<rparr>)" by simp
    have sp: "strict_prefix op ?T" using cs by (simp add: strict_prefix_def)
    have 1: "os_path_isdir (delete_at (fs w) ?T) op"
      by (rule isdir_delete_at_above [OF dir sp])
    have np: "\<not> prefix ?T (op @ [''filesToRemove.txt''])"
    proof
      assume "prefix ?T (op @ [''filesToRemove.txt''])"
      then have "?cs = [''filesToRemove.txt''] \<or> ?cs = []" by simp
      with cs nl show False by simp
    qed
    have 2: "lookup (delete_at (fs w) ?T) (op @ [''filesToRemove.txt'']) = Some (File content)"
      by (rule lookup_delete_at_file [OF lst np])
    have 3: "lookup (delete_at (fs w) ?T) ?T = None"
      by (rule lookup_delete_at_same) (use ne in simp)
    show ?thesis using rl 1 2 3 by (auto simp: lookup_delete_at_absent)
  qed
qed

lemma remove_listed_plain:
  assumes pl: "\<forall>c \<in> set op. plain c" and ne: "op \<noteq> []" and nd: "\<forall>q. \<not> denied E q"
  shows "os_path_isdir (fs w) op \<Longrightarrow>
    lookup (fs w) (op @ [''filesToRemove.txt'']) = Some (File content) \<Longrightarrow>
    \<forall>l \<in> set ls. strip l \<noteq> [] \<longrightarrow>
       plain_relative (strip l) \<and> split_on CHR ''/'' (strip l) \<noteq> [''filesToRemove.txt''] \<Longrightarrow>
    \<exists>w'. remove_listed E op ls w = (None, w') \<and>
         lookup (fs w') (op @ [''filesToRemove.txt'']) = Some (File content) \<and>
         out w' = out w \<and>
         (\<forall>q. lookup (fs w) q = None \<longrightarrow> lookup (fs w') q = None) \<and>
         (\<forall>l \<in> set ls. strip l \<noteq> [] \<longrightarrow>
             lookup (fs w') (op @ split_on CHR ''/'' (strip l)) = None)"
proof (induction ls arbitrary: w)
  case Nil
  then show ?case by simp
next
  case (Cons l ls)
  have rest: "\<forall>l \<in> set ls. strip l \<noteq> [] \<longrightarrow>
       plain_relative (strip l) \<and> split_on CHR ''/'' (strip l) \<noteq> [''filesToRemove.txt'']"
    using Cons.prems(3) by simp
  show ?case
  proof (cases "strip l = []")
    case True
    from Cons.IH [OF Cons.prems(1,2) rest] obtain w' where
      "remove_listed E op ls w = (None, w')"
      "lookup (fs w') (op @ [''filesToRemove.txt'']) = Some (File content)"
      "out w' = out w" "\<forall>q. lookup (fs w) q = None \<longrightarrow> lookup (fs w') q = None"
      "\<forall>l \<in> set ls. strip l \<noteq> [] \<longrightarrow> lookup (fs w') (op @ split_on CHR ''/'' (strip l)) = None"
      by blast
    then show ?thesis using True by (simp add: Let_def)
  next
    case False
    with Cons.prems(3) have pr: "plain_relative (strip l)"
      and nl: "split_on CHR ''/'' (strip l) \<noteq> [''filesToRemove.txt'']" by auto
    from remove_listed_step [OF pl ne nd Cons.prems(1,2) False pr nl, of ls]
    obtain w1 where s1: "remove_listed E op (l # ls) w = remove_listed E op ls w1"
      and d1: "os_path_isdir (fs w1) op"
      and l1: "lookup (fs w1) (op @ [''filesToRemove.txt'']) = Some (File content)"
      and o1: "out w1 = out w"
      and a1: "\<forall>q. lookup (fs w) q = None \<longrightarrow> lookup (fs w1) q = None"
      and t1: "lookup (fs w1) (op @ split_on CHR ''/'' (strip l)) = None" by blast
    from Cons.IH [OF d1 l1 rest] obtain w' where
      r: "remove_listed E op ls w1 = (None, w')"
      and l2: "lookup (fs w') (op @ [''filesToRemove.txt'']) = Some (File content)"
      and o2: "out w' = out w1"
      and a2: "\<forall>q. lookup (fs w1) q = None \<longrightarrow> lookup (fs w') q = None"
      and t2: "\<forall>l \<in> set ls. strip l \<noteq> [] \<longrightarrow>
                 lookup (fs w') (op @ split_on CHR ''/'' (strip l)) = None" by blast
    have "remove_listed E op (l # ls) w = (None, w')" using s1 r by simp
    moreover have "lookup (fs w') (op @ split_on CHR ''/'' (strip l)) = None" using a2 t1 by simp
    ultimately show ?thesis using l2 o1 o2 a1 a2 t2 by auto
  qed
qed


section \<open>Lemmas on what a merge writes and leaves\<close>

lemma lookup_Dir_Cons_olookup:
  "lookup (Dir es) (k # ks) = olookup (map_of es k) ks"
  by (simp add: olookup_def)

lemma copytree_into_slot:
  "distinct (map fst ses) \<Longrightarrow> map_of ses k = Some m \<Longrightarrow> copytree_into (Dir ses) des = (b, des') \<Longrightarrow>
   \<exists>e. copy_item k m (map_of des k) = (e, map_of des' k) \<and> (e \<noteq> None \<longrightarrow> b)"
proof (induction ses arbitrary: des b)
  case Nil
  then show ?case by simp
next
  case (Cons a ses)
  obtain j n where a: "a = (j, n)" by (cases a)
  from Cons.prems(1) a have d: "distinct (map fst ses)" and j: "j \<notin> fst ` set ses" by auto
  obtain e1 v where ci: "copy_item j n (map_of des j) = (e1, v)"
    by (cases "copy_item j n (map_of des j)")
  obtain b2 where r: "copytree_into (Dir ses) (set_slot j v des) = (b2, des')"
    and b: "b = (e1 \<noteq> None \<or> b2)"
    using Cons.prems(3) by (auto simp: a copytree_into_Cons ci split: prod.splits)
  show ?case
  proof (cases "j = k")
    case True
    with Cons.prems(2) a have m: "m = n" by simp
    have v: "v \<noteq> None" using ci by (rule copy_item_Some)
    have "map_of des' k = v"
      using copytree_into_frame [OF r j] v True by (simp add: map_of_set_slot_same)
    then show ?thesis using ci b True m by auto
  next
    case False
    with Cons.prems(2) a have mk: "map_of ses k = Some m" by simp
    from Cons.IH [OF d mk r] obtain e where
      "copy_item k m (map_of (set_slot j v des) k) = (e, map_of des' k)" "e \<noteq> None \<longrightarrow> b2"
      by blast
    then show ?thesis using False b by (auto simp: map_of_set_slot_other)
  qed
qed

lemma copy_items_slot:
  "distinct (map fst ses) \<Longrightarrow> map_of ses k = Some m \<Longrightarrow> copy_items ses des = (e, des') \<Longrightarrow>
   (e \<noteq> None \<and> map_of des' k = map_of des k) \<or>
   (\<exists>e1. copy_item k m (map_of des k) = (e1, map_of des' k) \<and> (e = None \<longrightarrow> e1 = None))"
proof (induction ses arbitrary: des)
  case Nil
  then show ?case by simp
next
  case (Cons a ses)
  obtain j n where a: "a = (j, n)" by (cases a)
  from Cons.prems(1) a have d: "distinct (map fst ses)" and j: "j \<notin> fst ` set ses" by auto
  obtain e1 v where ci: "copy_item j n (map_of des j) = (e1, v)"
    by (cases "copy_item j n (map_of des j)")
  have v: "v \<noteq> None" using ci by (rule copy_item_Some)
  show ?case
  proof (cases e1)
    case (Some x)
    with Cons.prems(3) have r: "des' = set_slot j v des" "e = Some x" by (auto simp: a ci)
    show ?thesis
    proof (cases "j = k")
      case True
      with Cons.prems(2) a have "m = n" by simp
      then show ?thesis using True ci r v by (auto simp: map_of_set_slot_same)
    next
      case False
      then show ?thesis using r by (auto simp: map_of_set_slot_other)
    qed
  next
    case None
    with Cons.prems(3) have r: "copy_items ses (set_slot j v des) = (e, des')"
      by (simp add: a ci)
    show ?thesis
    proof (cases "j = k")
      case True
      with Cons.prems(2) a have m: "m = n" by simp
      have "map_of des' k = v"
        using copy_items_frame [OF r j] v True by (simp add: map_of_set_slot_same)
      then show ?thesis using ci True m None by auto
    next
      case False
      with Cons.prems(2) a have mk: "map_of ses k = Some m" by simp
      from Cons.IH [OF d mk r] show ?thesis using False by (auto simp: map_of_set_slot_other)
    qed
  qed
qed

lemma wf_node_entry: "wf_node (Dir ses) \<Longrightarrow> map_of ses k = Some m \<Longrightarrow> wf_node m"
  using wf_node_lookup [of "Dir ses" "[k]" m] by simp


lemma clear_sub:
  "clear (Dir ses) (k # ks) \<Longrightarrow> map_of ses k = Some m \<Longrightarrow> clear m ks"
  unfolding clear_def
proof (intro allI impI)
  fix p assume c: "\<forall>p. strict_prefix p (k # ks) \<longrightarrow> \<not> os_path_isfile (Dir ses) p"
    and m: "map_of ses k = Some m" and sp: "strict_prefix p ks"
  from sp have "strict_prefix (k # p) (k # ks)" by (simp add: strict_prefix_def)
  with c have "\<not> os_path_isfile (Dir ses) (k # p)" by blast
  then show "\<not> os_path_isfile m p" using m by (simp add: os_path_isfile_def)
qed

lemma copytree_slot_untouched:
  assumes ih: "\<And>des b des'. copytree_into (Dir sub) des = (b, des') \<Longrightarrow>
                 lookup (Dir des') ks = lookup (Dir des) ks"
    and c: "copytree_slot sub d = (e, v)" and ks: "ks \<noteq> []"
  shows "olookup v ks = olookup d ks"
proof (cases d)
  case None
  obtain b sub' where r: "copytree_into (Dir sub) [] = (b, sub')"
    by (cases "copytree_into (Dir sub) []")
  with c None have v: "v = Some (Dir sub')" by (auto simp: copytree_slot_def)
  from ks obtain j js where "ks = j # js" by (cases ks) auto
  then have "lookup (Dir []) ks = None" by simp
  with ih [OF r] show ?thesis by (simp add: v None olookup_def)
next
  case (Some n)
  show ?thesis
  proof (cases n)
    case (File x)
    with c Some show ?thesis by (auto simp: copytree_slot_def)
  next
    case (Dir dsub)
    obtain b sub' where r: "copytree_into (Dir sub) dsub = (b, sub')"
      by (cases "copytree_into (Dir sub) dsub")
    with c Some Dir have v: "v = Some (Dir sub')" by (auto simp: copytree_slot_def)
    with ih [OF r] show ?thesis by (simp add: Some Dir olookup_def)
  qed
qed

lemma copytree_into_untouched:
  "wf_node (Dir ses) \<Longrightarrow> copytree_into (Dir ses) des = (b, des') \<Longrightarrow>
   lookup (Dir ses) q = None \<Longrightarrow> clear (Dir ses) q \<Longrightarrow>
   lookup (Dir des') q = lookup (Dir des) q"
proof (induction q arbitrary: ses des b des')
  case Nil
  then show ?case by simp
next
  case (Cons k ks)
  from Cons.prems(1) have dist: "distinct (map fst ses)" by simp
  show ?case
  proof (cases "map_of ses k")
    case None
    then have "k \<notin> fst ` set ses" by (simp add: map_of_eq_None_iff)
    from copytree_into_frame [OF Cons.prems(2) this] show ?thesis by simp
  next
    case (Some m)
    from copytree_into_slot [OF dist Some Cons.prems(2)] obtain e where
      ci: "copy_item k m (map_of des k) = (e, map_of des' k)" by blast
    show ?thesis
    proof (cases m)
      case (File c)
      show ?thesis
      proof (cases "ks = []")
        case True
        with Cons.prems(3) Some File show ?thesis by simp
      next
        case False
        then have "strict_prefix [k] (k # ks)" by (simp add: strict_prefix_def)
        with Cons.prems(4) have "\<not> os_path_isfile (Dir ses) [k]" by (simp add: clear_def)
        with Some File show ?thesis by (simp add: os_path_isfile_def)
      qed
    next
      case (Dir sub)
      from Cons.prems(3) Some Dir have l: "lookup (Dir sub) ks = None" by simp
      then have ks: "ks \<noteq> []" by auto
      have w: "wf_node (Dir sub)" using wf_node_entry [OF Cons.prems(1) Some] Dir by simp
      have cl: "clear (Dir sub) ks" using clear_sub [OF Cons.prems(4) Some] Dir by simp
      have ih: "\<And>des b des'. copytree_into (Dir sub) des = (b, des') \<Longrightarrow>
                 lookup (Dir des') ks = lookup (Dir des) ks"
        by (rule Cons.IH [OF w _ l cl])
      from ci Dir have cs: "copytree_slot sub (map_of des k) = (e, map_of des' k)"
        by (simp add: copy_item_def)
      have "olookup (map_of des' k) ks = olookup (map_of des k) ks"
      proof (rule copytree_slot_untouched)
        show "copytree_slot sub (map_of des k) = (e, map_of des' k)" by (rule cs)
        show "ks \<noteq> []" by (rule ks)
        fix des0 b0 des1 assume "copytree_into (Dir sub) des0 = (b0, des1)"
        then show "lookup (Dir des1) ks = lookup (Dir des0) ks" by (rule ih)
      qed
      then show ?thesis by (simp add: olookup_def)
    qed
  qed
qed

lemma copy_items_untouched:
  assumes w: "wf_node (Dir ses)" and r: "copy_items ses des = (e, des')"
    and l: "lookup (Dir ses) q = None" and cl: "clear (Dir ses) q"
  shows "lookup (Dir des') q = lookup (Dir des) q"
proof (cases q)
  case Nil
  with l show ?thesis by simp
next
  case (Cons k ks)
  from w have dist: "distinct (map fst ses)" by simp
  show ?thesis
  proof (cases "map_of ses k")
    case None
    then have "k \<notin> fst ` set ses" by (simp add: map_of_eq_None_iff)
    from copy_items_frame [OF r this] show ?thesis by (simp add: Cons)
  next
    case (Some m)
    from copy_items_slot [OF dist Some r]
    consider "map_of des' k = map_of des k"
      | e1 where "copy_item k m (map_of des k) = (e1, map_of des' k)" by blast
    then show ?thesis
    proof cases
      case 1
      then show ?thesis by (simp add: Cons)
    next
      case 2
      show ?thesis
      proof (cases m)
        case (File c)
        show ?thesis
        proof (cases "ks = []")
          case True
          with l Some File Cons show ?thesis by simp
        next
          case False
          then have "strict_prefix [k] (k # ks)" by (simp add: strict_prefix_def)
          with cl Cons have "\<not> os_path_isfile (Dir ses) [k]" by (simp add: clear_def)
          with Some File show ?thesis by (simp add: os_path_isfile_def)
        qed
      next
        case (Dir sub)
        from l Some Dir Cons have l': "lookup (Dir sub) ks = None" by simp
        then have ks: "ks \<noteq> []" by auto
        have ws: "wf_node (Dir sub)" using wf_node_entry [OF w Some] Dir by simp
        have cs: "clear (Dir sub) ks" using clear_sub [of ses k ks m] cl Some Dir Cons by simp
        have ih: "\<And>des b des'. copytree_into (Dir sub) des = (b, des') \<Longrightarrow>
                 lookup (Dir des') ks = lookup (Dir des) ks"
          by (rule copytree_into_untouched [OF ws _ l' cs])
        from 2 Dir have c2: "copytree_slot sub (map_of des k) = (e1, map_of des' k)"
          by (simp add: copy_item_def)
        have "olookup (map_of des' k) ks = olookup (map_of des k) ks"
        proof (rule copytree_slot_untouched)
          show "copytree_slot sub (map_of des k) = (e1, map_of des' k)" by (rule c2)
          show "ks \<noteq> []" by (rule ks)
          fix des0 b0 des1 assume "copytree_into (Dir sub) des0 = (b0, des1)"
          then show "lookup (Dir des1) ks = lookup (Dir des0) ks" by (rule ih)
        qed
        then show ?thesis by (simp add: Cons olookup_def)
      qed
    qed
  qed
qed

lemma copytree_slot_written:
  assumes ih: "\<And>des des'. copytree_into (Dir sub) des = (False, des') \<Longrightarrow>
                 \<not> os_path_isdir (Dir des) ks \<Longrightarrow> lookup (Dir des') ks = Some (File c)"
    and c: "copytree_slot sub d = (None, v)" and ks: "ks \<noteq> []"
    and nd: "\<And>n. d = Some n \<Longrightarrow> \<not> os_path_isdir n ks"
  shows "olookup v ks = Some (File c)"
proof (cases d)
  case None
  obtain b sub' where r: "copytree_into (Dir sub) [] = (b, sub')"
    by (cases "copytree_into (Dir sub) []")
  with c None have v: "v = Some (Dir sub')" and b: "b = False"
    by (auto simp: copytree_slot_def split: if_splits)
  from ks obtain j js where "ks = j # js" by (cases ks) auto
  then have "\<not> os_path_isdir (Dir []) ks" by (simp add: os_path_isdir_def)
  with ih r b show ?thesis by (simp add: v olookup_def)
next
  case (Some n)
  show ?thesis
  proof (cases n)
    case (File x)
    with c Some show ?thesis by (auto simp: copytree_slot_def)
  next
    case (Dir dsub)
    obtain b sub' where r: "copytree_into (Dir sub) dsub = (b, sub')"
      by (cases "copytree_into (Dir sub) dsub")
    with c Some Dir have v: "v = Some (Dir sub')" and b: "b = False"
      by (auto simp: copytree_slot_def split: if_splits)
    have "\<not> os_path_isdir (Dir dsub) ks" using nd Some Dir by simp
    with ih r b show ?thesis by (simp add: v olookup_def)
  qed
qed

lemma copy2_slot_written:
  assumes "copy2_slot k c d = (None, v)" and "\<And>es. d \<noteq> Some (Dir es)"
  shows "v = Some (File c)"
proof (cases d)
  case None
  with assms(1) show ?thesis by (simp add: copy2_slot_def)
next
  case (Some n)
  with assms(2) obtain x where "n = File x" by (cases n) auto
  with assms(1) Some show ?thesis by (simp add: copy2_slot_def)
qed

lemma not_isdir_slot:
  "\<not> os_path_isdir (Dir des) (k # ks) \<Longrightarrow> map_of des k = Some n \<Longrightarrow> \<not> os_path_isdir n ks"
  by (simp add: os_path_isdir_def)

lemma copytree_into_written:
  "wf_node (Dir ses) \<Longrightarrow> copytree_into (Dir ses) des = (False, des') \<Longrightarrow>
   lookup (Dir ses) q = Some (File c) \<Longrightarrow> \<not> os_path_isdir (Dir des) q \<Longrightarrow>
   lookup (Dir des') q = Some (File c)"
proof (induction q arbitrary: ses des des')
  case Nil
  then show ?case by simp
next
  case (Cons k ks)
  from Cons.prems(1) have dist: "distinct (map fst ses)" by simp
  from Cons.prems(3) obtain m where m: "map_of ses k = Some m" and lm: "lookup m ks = Some (File c)"
    by (auto split: option.splits)
  from copytree_into_slot [OF dist m Cons.prems(2)]
  have ci: "copy_item k m (map_of des k) = (None, map_of des' k)" by auto
  show ?case
  proof (cases m)
    case (File c')
    with lm have ks: "ks = []" and c': "c' = c" by (cases ks; simp)+
    from ci File c' have c2: "copy2_slot k c (map_of des k) = (None, map_of des' k)"
      by (simp add: copy_item_def)
    have "\<And>es. map_of des k \<noteq> Some (Dir es)"
      using Cons.prems(4) ks by (auto simp: os_path_isdir_def)
    from copy2_slot_written [OF c2 this] show ?thesis by (simp add: ks)
  next
    case (Dir sub)
    from lm Dir have l: "lookup (Dir sub) ks = Some (File c)" by simp
    then have ks: "ks \<noteq> []" by auto
    have w: "wf_node (Dir sub)" using wf_node_entry [OF Cons.prems(1) m] Dir by simp
    from ci Dir have cs: "copytree_slot sub (map_of des k) = (None, map_of des' k)"
      by (simp add: copy_item_def)
    have "olookup (map_of des' k) ks = Some (File c)"
    proof (rule copytree_slot_written)
      show "copytree_slot sub (map_of des k) = (None, map_of des' k)" by (rule cs)
      show "ks \<noteq> []" by (rule ks)
      show "\<And>n. map_of des k = Some n \<Longrightarrow> \<not> os_path_isdir n ks"
        using Cons.prems(4) by (rule not_isdir_slot)
      fix des0 des1 assume "copytree_into (Dir sub) des0 = (False, des1)"
        and "\<not> os_path_isdir (Dir des0) ks"
      then show "lookup (Dir des1) ks = Some (File c)" by (rule Cons.IH [OF w _ l])
    qed
    then show ?thesis by (simp add: olookup_def)
  qed
qed

lemma copy_items_written:
  assumes w: "wf_node (Dir ses)" and r: "copy_items ses des = (None, des')"
    and l: "lookup (Dir ses) q = Some (File c)" and nd: "\<not> os_path_isdir (Dir des) q"
  shows "lookup (Dir des') q = Some (File c)"
proof (cases q)
  case Nil
  with l show ?thesis by simp
next
  case (Cons k ks)
  from w have dist: "distinct (map fst ses)" by simp
  from l Cons obtain m where m: "map_of ses k = Some m" and lm: "lookup m ks = Some (File c)"
    by (auto split: option.splits)
  from copy_items_slot [OF dist m r]
  have ci: "copy_item k m (map_of des k) = (None, map_of des' k)" by auto
  show ?thesis
  proof (cases m)
    case (File c')
    with lm have ks: "ks = []" and c': "c' = c" by (cases ks; simp)+
    from ci File c' have c2: "copy2_slot k c (map_of des k) = (None, map_of des' k)"
      by (simp add: copy_item_def)
    have "\<And>es. map_of des k \<noteq> Some (Dir es)"
      using nd ks Cons by (auto simp: os_path_isdir_def)
    from copy2_slot_written [OF c2 this] show ?thesis by (simp add: ks Cons)
  next
    case (Dir sub)
    from lm Dir have l': "lookup (Dir sub) ks = Some (File c)" by simp
    then have ks: "ks \<noteq> []" by auto
    have ws: "wf_node (Dir sub)" using wf_node_entry [OF w m] Dir by simp
    from ci Dir have cs: "copytree_slot sub (map_of des k) = (None, map_of des' k)"
      by (simp add: copy_item_def)
    have nd': "\<not> os_path_isdir (Dir des) (k # ks)" using nd Cons by simp
    have "olookup (map_of des' k) ks = Some (File c)"
    proof (rule copytree_slot_written)
      show "copytree_slot sub (map_of des k) = (None, map_of des' k)" by (rule cs)
      show "ks \<noteq> []" by (rule ks)
      show "\<And>n. map_of des k = Some n \<Longrightarrow> \<not> os_path_isdir n ks"
        using nd' by (rule not_isdir_slot)
      fix des0 des1 assume "copytree_into (Dir sub) des0 = (False, des1)"
        and "\<not> os_path_isdir (Dir des0) ks"
      then show "lookup (Dir des1) ks = Some (File c)" by (rule copytree_into_written [OF ws _ l'])
    qed
    then show ?thesis by (simp add: Cons olookup_def)
  qed
qed

lemma separate_append: "separate d T \<Longrightarrow> separate d (T @ p)"
  unfolding separate_def
  by (metis prefix_append prefix_order.trans prefixI prefix_same_cases)

lemma separate_after: "a \<noteq> b \<Longrightarrow> separate (p @ a # x) (p @ b # y)"
  by (simp add: separate_def)

lemma makedirs_not_file:
  assumes "makedirs t p = Inr t'"
  shows "lookup t p = None \<or> (\<exists>es. lookup t p = Some (Dir es))"
proof (cases "lookup t p")
  case None
  then show ?thesis by simp
next
  case (Some n)
  show ?thesis
  proof (cases n)
    case (File c)
    with Some have "os_path_isfile t p" by (simp add: os_path_isfile_def)
    with keeps_makedirs [OF assms] have "os_path_isfile t' p" by (simp add: keeps_def)
    with lookup_makedirs [OF assms] show ?thesis by (auto simp: os_path_isfile_def)
  next
    case (Dir es)
    with Some show ?thesis by simp
  qed
qed

lemma lookup_makedirs_below:
  assumes "makedirs t p = Inr t'" and "q \<noteq> []"
  shows "lookup t' (p @ q) = lookup t (p @ q)"
proof -
  from makedirs_not_file [OF assms(1)] show ?thesis
  proof
    assume n: "lookup t p = None"
    from makedirs_fresh [OF assms(1) n] have "lookup t' p = Some (Dir [])" .
    moreover obtain k ks where "q = k # ks" using assms(2) by (cases q) auto
    ultimately show ?thesis using n by (simp add: lookup_append)
  next
    assume "\<exists>es. lookup t p = Some (Dir es)"
    then obtain es where "lookup t p = Some (Dir es)" by blast
    from makedirs_existing [OF this] assms(1) show ?thesis by simp
  qed
qed

lemma copy_directory_contents_frame:
  assumes run: "copy_directory_contents src dest w = (e, w')" and sep: "separate dest p"
  shows "lookup (fs w') p = lookup (fs w) p"
proof (cases "os_path_exists (fs w) src")
  case False
  with run show ?thesis by (auto simp: copy_directory_contents_def)
next
  case ex: True
  show ?thesis
  proof (cases "makedirs (fs w) dest")
    case (Inl x)
    with run ex show ?thesis by (auto simp: copy_directory_contents_def)
  next
    case (Inr fs1)
    have 1: "lookup fs1 p = lookup (fs w) p" by (rule lookup_makedirs_separate [OF Inr sep])
    obtain des where des: "lookup fs1 dest = Some (Dir des)"
      using lookup_makedirs [OF Inr] by blast
    show ?thesis
    proof (cases "os_listdir fs1 src")
      case (Inl x)
      with run ex Inr have "w' = w\<lparr>fs := fs1\<rparr>" by (auto simp: copy_directory_contents_def)
      with 1 show ?thesis by simp
    next
      case ls: (Inr ses)
      show ?thesis
      proof (cases "src = dest")
        case True
        with run ex Inr ls have "w' = w\<lparr>fs := fs1\<rparr>"
          by (auto simp: copy_directory_contents_def)
        with 1 show ?thesis by simp
      next
        case False
        obtain des' where "w' = w\<lparr>fs := put fs1 dest (Dir des')\<rparr>"
          using run ex Inr ls des False
          by (auto simp: copy_directory_contents_def split: prod.splits)
        then show ?thesis using 1 lookup_put_separate [OF sep] by simp
      qed
    qed
  qed
qed

lemma file_path_clear:
  assumes fp: "file_path t T q" and l: "lookup t T = Some s"
  shows "clear s q"
  unfolding clear_def
proof (intro allI impI)
  fix p assume sp: "strict_prefix p q"
  then have "p \<in> set (prefixes q)" "p \<noteq> q" by (auto simp: in_set_prefixes strict_prefix_def)
  with fp have "\<not> os_path_isfile t (T @ p)" by (auto simp: file_path_def list_all_iff)
  then show "\<not> os_path_isfile s p" using l by (simp add: os_path_isfile_def lookup_append)
qed

lemma copy_directory_contents_lookup:
  assumes run: "copy_directory_contents src dest w = (e, w')"
    and sep: "separate src dest"
    and wf: "\<And>m. lookup (fs w) src = Some m \<Longrightarrow> wf_node m"
    and fp: "file_path (fs w) src q" and q: "q \<noteq> []"
  shows "lookup (fs w) (src @ q) = None \<Longrightarrow>
           lookup (fs w') (dest @ q) = lookup (fs w) (dest @ q)"
    and "e = None \<Longrightarrow> lookup (fs w) (src @ q) = Some n \<Longrightarrow> \<not> os_path_isdir (fs w) (dest @ q) \<Longrightarrow>
           lookup (fs w') (dest @ q) = Some n"
proof -
  have "(lookup (fs w) (src @ q) = None \<longrightarrow>
           lookup (fs w') (dest @ q) = lookup (fs w) (dest @ q)) \<and>
        (e = None \<and> lookup (fs w) (src @ q) = Some n \<and> \<not> os_path_isdir (fs w) (dest @ q) \<longrightarrow>
           lookup (fs w') (dest @ q) = Some n)"
  proof (cases "os_path_exists (fs w) src")
    case False
    with run show ?thesis
      by (auto simp: copy_directory_contents_def os_path_exists_def lookup_append)
  next
    case ex: True
    show ?thesis
    proof (cases "makedirs (fs w) dest")
      case (Inl x)
      with run ex show ?thesis by (auto simp: copy_directory_contents_def)
    next
      case (Inr fs1)
      have sep': "separate dest src" using sep by (auto simp: separate_def)
      have src1: "lookup fs1 src = lookup (fs w) src"
        by (rule lookup_makedirs_separate [OF Inr sep'])
      have dq: "lookup fs1 (dest @ q) = lookup (fs w) (dest @ q)"
        by (rule lookup_makedirs_below [OF Inr q])
      obtain des where des: "lookup fs1 dest = Some (Dir des)"
        using lookup_makedirs [OF Inr] by blast
      show ?thesis
      proof (cases "os_listdir fs1 src")
        case (Inl x)
        with run ex Inr have "w' = w\<lparr>fs := fs1\<rparr>" "e = Some x"
          by (auto simp: copy_directory_contents_def)
        with dq show ?thesis by simp
      next
        case ls: (Inr ses)
        have ne: "src \<noteq> dest" using sep by (auto simp: separate_def)
        obtain des' where ci: "copy_items ses des = (e, des')"
          and w': "w' = w\<lparr>fs := put fs1 dest (Dir des')\<rparr>"
          using run ex Inr ls des ne
          by (auto simp: copy_directory_contents_def split: prod.splits)
        have s: "lookup (fs w) src = Some (Dir ses)"
          using ls src1 by (auto simp: os_listdir_def split: option.splits node.splits)
        have wfs: "wf_node (Dir ses)" by (rule wf [OF s])
        have cl: "clear (Dir ses) q" by (rule file_path_clear [OF fp s])
        have sq: "lookup (fs w) (src @ q) = lookup (Dir ses) q" by (simp add: lookup_append s)
        have dq0: "lookup (fs w) (dest @ q) = lookup (Dir des) q"
          using dq by (simp add: lookup_append des)
        have dq1: "lookup (fs w') (dest @ q) = lookup (Dir des') q"
          by (simp add: w' lookup_append lookup_put_same [OF des])
        have a: "lookup (fs w) (src @ q) = None \<longrightarrow>
                 lookup (fs w') (dest @ q) = lookup (fs w) (dest @ q)"
          using copy_items_untouched [OF wfs ci _ cl] sq dq0 dq1 by simp
        have b: "e = None \<and> lookup (fs w) (src @ q) = Some n \<and> \<not> os_path_isdir (fs w) (dest @ q)
                 \<longrightarrow> lookup (fs w') (dest @ q) = Some n"
        proof (intro impI, elim conjE)
          assume e: "e = None" and l: "lookup (fs w) (src @ q) = Some n"
            and nd: "\<not> os_path_isdir (fs w) (dest @ q)"
          from fp l obtain c where n: "n = File c"
            by (cases n) (auto simp: file_path_def os_path_isdir_def)
          have nd': "\<not> os_path_isdir (Dir des) q" using nd dq0 by (simp add: os_path_isdir_def)
          from ci e have ci': "copy_items ses des = (None, des')" by simp
          have "lookup (Dir ses) q = Some (File c)" using l sq n by simp
          from copy_items_written [OF wfs ci' this nd'] show "lookup (fs w') (dest @ q) = Some n"
            using dq1 n by simp
        qed
        from a b show ?thesis by simp
      qed
    qed
  qed
  then show "lookup (fs w) (src @ q) = None \<Longrightarrow>
           lookup (fs w') (dest @ q) = lookup (fs w) (dest @ q)"
    and "e = None \<Longrightarrow> lookup (fs w) (src @ q) = Some n \<Longrightarrow> \<not> os_path_isdir (fs w) (dest @ q) \<Longrightarrow>
           lookup (fs w') (dest @ q) = Some n" by auto
qed

lemma clean_output_ok:
  assumes run: "clean_output E outp w = (None, w0)" and ne: "outp \<noteq> []"
  shows "lookup (fs w0) outp = Some (Dir [])"
    and "separate outp p \<Longrightarrow> lookup (fs w0) p = lookup (fs w) p"
proof -
  let ?rm = "\<lambda>w. if os_path_exists (fs w) outp then shutil_rmtree E outp True w else (None, w)"
  obtain e1 w1 where r1: "?rm w = (e1, w1)" by (cases "?rm w")
  from run r1 have e1: "e1 = None" and mk: "os_makedirs outp w1 = (None, w0)"
    by (auto simp: clean_output_def split: option.splits prod.splits)
  have w1: "w1 = w \<and> lookup (fs w) outp = None \<or> w1 = w\<lparr>fs := delete_at (fs w) outp\<rparr>"
    using r1 e1
    by (auto simp: shutil_rmtree_def os_path_exists_def
             split: if_splits option.splits node.splits prod.splits)
  have n1: "lookup (fs w1) outp = None" using w1 lookup_delete_at_same [OF ne] by auto
  have f1: "separate outp p \<Longrightarrow> lookup (fs w1) p = lookup (fs w) p"
    using w1 lookup_delete_at_separate by auto
  from mk obtain t where t: "makedirs (fs w1) outp = Inr t" and w0: "w0 = w1\<lparr>fs := t\<rparr>"
    by (auto simp: os_makedirs_def split: sum.splits)
  show "lookup (fs w0) outp = Some (Dir [])" using makedirs_fresh [OF t n1] w0 by simp
  show "separate outp p \<Longrightarrow> lookup (fs w0) p = lookup (fs w) p"
    using lookup_makedirs_separate [OF t] f1 w0 by simp
qed

lemma file_path_frame:
  assumes "\<And>p. lookup t' (T @ p) = lookup t (T @ p)"
  shows "file_path t' T q = file_path t T q"
  using assms by (simp add: file_path_def os_path_isdir_def os_path_isfile_def)

lemma run_steps_Cons_None:
  "run_steps (f # rest) w = (None, w') \<Longrightarrow> \<exists>w1. f w = (None, w1) \<and> run_steps rest w1 = (None, w')"
  by (cases "f w") (auto split: option.splits)

lemma tier_step:
  assumes run: "copy_directory_contents T outp wi = (None, wj)"
    and sep: "separate T outp"
    and wf: "\<And>m. lookup (fs wi) T = Some m \<Longrightarrow> wf_node m"
    and fp: "file_path (fs wi) T q" and q: "q \<noteq> []"
    and nd: "\<not> os_path_isdir (fs wi) (outp @ q)"
  shows "lookup (fs wj) (outp @ q) =
           (case lookup (fs wi) (T @ q) of Some n \<Rightarrow> Some n | None \<Rightarrow> lookup (fs wi) (outp @ q))"
    and "\<not> os_path_isdir (fs wj) (outp @ q)"
proof -
  have a: "lookup (fs wj) (outp @ q) =
           (case lookup (fs wi) (T @ q) of Some n \<Rightarrow> Some n | None \<Rightarrow> lookup (fs wi) (outp @ q))"
  proof (cases "lookup (fs wi) (T @ q)")
    case None
    from copy_directory_contents_lookup(1) [OF run sep wf fp q None] None show ?thesis by simp
  next
    case (Some n)
    from copy_directory_contents_lookup(2) [OF run sep wf fp q refl Some nd] Some
    show ?thesis by simp
  qed
  show "lookup (fs wj) (outp @ q) =
           (case lookup (fs wi) (T @ q) of Some n \<Rightarrow> Some n | None \<Rightarrow> lookup (fs wi) (outp @ q))"
    by (rule a)
  from fp have "\<not> os_path_isdir (fs wi) (T @ q)" by (simp add: file_path_def)
  then show "\<not> os_path_isdir (fs wj) (outp @ q)"
    using a nd by (auto simp: os_path_isdir_def split: option.splits)
qed

lemma tier_sources_kept:
  assumes run: "copy_directory_contents T outp wi = (e, wj)" and sep: "separate outp T'"
  shows "lookup (fs wj) (T' @ p) = lookup (fs wi) (T' @ p)"
  by (rule copy_directory_contents_frame [OF run separate_append [OF sep]])


section \<open>Lemmas on text files\<close>

lemma utf8_valid_ascii:
  "list_all (\<lambda>c. byte_in c 0x00 0x7F) s \<Longrightarrow> utf8_valid s"
proof (induction s)
  case Nil
  show ?case by (subst utf8_valid.simps) simp
next
  case (Cons c s)
  then have "utf8_len (c # s) = 1" by simp
  then show ?case using Cons by (subst utf8_valid.simps) simp
qed

lemma universal_newlines_id:
  "CHR 0x0D \<notin> set s \<Longrightarrow> universal_newlines s = s"
  by (induction s rule: universal_newlines.induct) auto

lemma read_file_Inr:
  "read_file E p bytes = Inr content \<longleftrightarrow>
     \<not> unreadable E p \<and> utf8_valid bytes \<and> content = universal_newlines bytes"
  by (auto simp: read_file_def decode_text_def)

lemma read_file_Inl:
  "(\<exists>e. read_file E p bytes = Inl e) \<longleftrightarrow> unreadable E p \<or> \<not> utf8_valid bytes"
  by (auto simp: read_file_def decode_text_def)

lemma read_file_ascii:
  "\<not> unreadable E p \<Longrightarrow> list_all (\<lambda>c. byte_in c 0x00 0x7F) bytes \<Longrightarrow>
   CHR 0x0D \<notin> set bytes \<Longrightarrow> read_file E p bytes = Inr bytes"
  by (simp add: read_file_Inr utf8_valid_ascii universal_newlines_id)
section \<open>The claims\<close>




text \<open>
  C4. Merging is an overlay: whatever the outcome, every path that named a regular file
  before names a regular file afterwards and every path that named a directory names a
  directory, so no entry of the destination is removed, present in the source or not.
  When the source does not exist the call returns normally and changes nothing.
\<close>

theorem copy_directory_contents_overlay:
  assumes "copy_directory_contents src dest w = (e, w')"
  shows "(\<not> os_path_exists (fs w) src \<longrightarrow> e = None \<and> w' = w) \<and>
         (\<forall>q. (os_path_isfile (fs w) q \<longrightarrow> os_path_isfile (fs w') q) \<and>
              (os_path_isdir (fs w) q \<longrightarrow> os_path_isdir (fs w') q))"
proof
  show "\<not> os_path_exists (fs w) src \<longrightarrow> e = None \<and> w' = w"
    using assms by (auto simp: copy_directory_contents_def)
  show "\<forall>q. (os_path_isfile (fs w) q \<longrightarrow> os_path_isfile (fs w') q) \<and>
              (os_path_isdir (fs w) q \<longrightarrow> os_path_isdir (fs w') q)"
    using keeps_copy_directory_contents [OF assms] by (simp add: keeps_def)
qed

theorem copy_directory_contents_overlay_witness:
  "copy_directory_contents [''src''] [''dst''] example_merge = (None, example_merged) \<and>
   os_path_isfile (fs example_merge) [''dst'', ''keep''] \<and>
   os_path_isfile (fs example_merged) [''dst'', ''keep''] \<and>
   os_path_isdir (fs example_merge) [''dst'', ''d''] \<and>
   os_path_isdir (fs example_merged) [''dst'', ''d''] \<and>
   \<not> os_path_exists (fs example_merge) [''absent''] \<and>
   copy_directory_contents [''absent''] [''dst''] example_merge = (None, example_merge)"
proof -
  have h: "copy_directory_contents [''src''] [''dst''] example_merge = (None, example_merged)"
    by (simp add: example_merge_def example_merged_def copy_directory_contents_def
          os_path_exists_def os_listdir_def copy_item_def copy2_slot_def copytree_slot_def
          set_slot_def)
  have f: "os_path_isfile (fs example_merge) [''dst'', ''keep'']"
    by (simp add: example_merge_def os_path_isfile_def)
  have d: "os_path_isdir (fs example_merge) [''dst'', ''d'']"
    by (simp add: example_merge_def os_path_isdir_def)
  have n: "\<not> os_path_exists (fs example_merge) [''absent'']"
    by (simp add: example_merge_def os_path_exists_def)
  obtain e w' where r: "copy_directory_contents [''absent''] [''dst''] example_merge = (e, w')"
    by (cases "copy_directory_contents [''absent''] [''dst''] example_merge")
  from copy_directory_contents_overlay [OF h] f d
  have "os_path_isfile (fs example_merged) [''dst'', ''keep'']"
    and "os_path_isdir (fs example_merged) [''dst'', ''d'']" by blast+
  moreover from copy_directory_contents_overlay [OF r] n have "e = None \<and> w' = example_merge"
    by blast
  ultimately show ?thesis using h f d n r by simp
qed



text \<open>
  C2. The claim that \<open>update_pack_framework\<close> never raises does not hold: only
  \<^verbatim>\<open>CalledProcessError\<close> is caught, and with no git on the PATH \<^verbatim>\<open>subprocess.run\<close>
  raises FileNotFoundError, which leaves the function.
\<close>

theorem update_pack_framework_raises:
  "fst (update_pack_framework example_env_no_git example_pack) = Some FileNotFoundError"
  by (simp add: update_pack_framework_def example_env_no_git_def example_pack_def
        os_path_exists_def subprocess_run_def print_def)


text \<open>
  C2, as the code has it. The command is the pull in the framework directory when that
  path exists and the clone in the script directory otherwise. It is run, once, exactly
  when it can be started, and the function returns normally exactly then; a run that
  exits with a status other than 0 is reported by the last message printed. When the
  command cannot be started nothing is run and the function raises.
\<close>

theorem update_pack_framework_outcome:
  assumes "update_pack_framework E w = (e, w')" and "sync_command E w = (argv, cwd)"
  shows "runs (out w') = runs (out w) @ (if starts E argv cwd w then [(argv, cwd)] else []) \<and>
         (e = None) = starts E argv cwd w \<and>
         (starts E argv cwd w \<and> fst (proc E argv cwd (fs w)) \<noteq> Exit 0 \<longrightarrow>
            last (out w') = Print (if argv = git_pull then ''Error updating PackFramework.''
                                   else ''Error cloning PackFramework repository.''))"
proof (cases "os_path_exists (fs w) (script_dir E @ [''framework''])")
  case True
  with assms(2) have a: "argv = git_pull" "cwd = script_dir E @ [''framework'']"
    by (auto simp: sync_command_def)
  let ?w1 = "print ''Found a PackFramework folder, trying to update...'' w"
  obtain e1 w1 where r: "subprocess_run E argv cwd ?w1 = (e1, w1)"
    by (cases "subprocess_run E argv cwd ?w1")
  have st: "starts E argv cwd ?w1 = starts E argv cwd w" by (simp add: starts_def print_def)
  have fsw: "fs ?w1 = fs w" by (simp add: print_def)
  from assms(1) True a r have res:
    "(e, w') = (if e1 = Some CalledProcessError then (None, print ''Error updating PackFramework.'' w1)
                else (e1, w1))"
    by (auto simp: update_pack_framework_def split: option.splits error.splits)
  show ?thesis
  proof (cases "starts E argv cwd w")
    case T: True
    with subprocess_run_cases [OF r] st fsw obtain n t where
      p: "proc E argv cwd (fs w) = (Exit n, t)"
      and e1: "e1 = (if n = 0 then None else Some CalledProcessError)"
      and w1: "w1 = ?w1\<lparr>fs := t, out := out ?w1 @ [Run argv cwd]\<rparr>" by auto
    show ?thesis using res T p e1 w1 a(1)
      by (cases "n = 0") (auto simp: print_def runs_append)
  next
    case F: False
    with subprocess_run_cases [OF r] st have "e1 \<noteq> None" "e1 \<noteq> Some CalledProcessError" "w1 = ?w1"
      by auto
    then show ?thesis using res F by (auto simp: print_def runs_append)
  qed
next
  case False
  with assms(2) have a: "argv = git_clone" "cwd = script_dir E"
    by (auto simp: sync_command_def)
  have ne: "git_clone \<noteq> git_pull" by (simp add: git_clone_def git_pull_def)
  let ?w1 = "print ''PackFramework folder not found, cloning repository...'' w"
  obtain e1 w1 where r: "subprocess_run E argv cwd ?w1 = (e1, w1)"
    by (cases "subprocess_run E argv cwd ?w1")
  have st: "starts E argv cwd ?w1 = starts E argv cwd w" by (simp add: starts_def print_def)
  have fsw: "fs ?w1 = fs w" by (simp add: print_def)
  from assms(1) False a r have res:
    "(e, w') = (if e1 = Some CalledProcessError
                then (None, print ''Error cloning PackFramework repository.'' w1)
                else (e1, w1))"
    by (auto simp: update_pack_framework_def split: option.splits error.splits)
  show ?thesis
  proof (cases "starts E argv cwd w")
    case T: True
    with subprocess_run_cases [OF r] st fsw obtain n t where
      p: "proc E argv cwd (fs w) = (Exit n, t)"
      and e1: "e1 = (if n = 0 then None else Some CalledProcessError)"
      and w1: "w1 = ?w1\<lparr>fs := t, out := out ?w1 @ [Run argv cwd]\<rparr>" by auto
    show ?thesis using res T p e1 w1 a(1) ne
      by (cases "n = 0") (auto simp: print_def runs_append)
  next
    case F: False
    with subprocess_run_cases [OF r] st have "e1 \<noteq> None" "e1 \<noteq> Some CalledProcessError" "w1 = ?w1"
      by auto
    then show ?thesis using res F by (auto simp: print_def runs_append)
  qed
qed


theorem update_pack_framework_outcome_witness:
  "update_pack_framework example_env example_pack =
     (None, \<lparr>fs = fs example_pack,
             out = [Print ''Found a PackFramework folder, trying to update...'',
                    Run git_pull [''pack'', ''framework''],
                    Print ''Error updating PackFramework.'']\<rparr>) \<and>
   sync_command example_env example_pack = (git_pull, [''pack'', ''framework'']) \<and>
   starts example_env git_pull [''pack'', ''framework''] example_pack \<and>
   fst (proc example_env git_pull [''pack'', ''framework''] (fs example_pack)) \<noteq> Exit 0 \<and>
   runs (out (snd (update_pack_framework example_env example_pack))) =
     [(git_pull, [''pack'', ''framework''])]"
proof -
  have h1: "update_pack_framework example_env example_pack =
     (None, \<lparr>fs = fs example_pack,
             out = [Print ''Found a PackFramework folder, trying to update...'',
                    Run git_pull [''pack'', ''framework''],
                    Print ''Error updating PackFramework.'']\<rparr>)"
    by (simp add: update_pack_framework_def example_env_def example_pack_def
          os_path_exists_def subprocess_run_def print_def)
  have h2: "sync_command example_env example_pack = (git_pull, [''pack'', ''framework''])"
    by (simp add: sync_command_def example_env_def example_pack_def os_path_exists_def)
  have h3: "starts example_env git_pull [''pack'', ''framework''] example_pack"
    by (simp add: starts_def example_env_def example_pack_def os_path_isdir_def)
  have h4: "fst (proc example_env git_pull [''pack'', ''framework''] (fs example_pack)) \<noteq> Exit 0"
    by (simp add: example_env_def)
  from update_pack_framework_outcome [OF h1 h2] h3
  have "runs [Print ''Found a PackFramework folder, trying to update...'',
                    Run git_pull [''pack'', ''framework''],
                    Print ''Error updating PackFramework.''] =
          runs (out example_pack) @ [(git_pull, [''pack'', ''framework''])]"
    by simp
  then show ?thesis using h1 h2 h3 h4 by (simp add: example_pack_def)
qed

text \<open>
  C10. When the beta directory does not exist, \<open>copy_beta_to_release\<close> raises
  FileNotFoundError from listing it, after the previous release tree has been removed
  and an empty release directory made: the release directory is empty when the exception
  leaves the function. The script directory exists, the release path is a directory or
  absent, and no removal below it is refused.
\<close>

theorem copy_beta_to_release_absent_beta:
  assumes beta: "\<not> os_path_exists (fs w) (script_dir E @ [''beta''])"
    and sd: "os_path_isdir (fs w) (script_dir E)"
    and rel: "\<not> os_path_isfile (fs w) (script_dir E @ [''release''])"
    and nd: "\<forall>q. prefix (script_dir E @ [''release'']) q \<longrightarrow> \<not> denied E q"
  shows "\<exists>w'. copy_beta_to_release E w = (Some FileNotFoundError, w') \<and>
              lookup (fs w') (script_dir E @ [''release'']) = Some (Dir []) \<and>
              out w' = out w"
proof -
  let ?R = "script_dir E @ [''release'']" and ?B = "script_dir E @ [''beta'']"
  let ?clean = "\<lambda>w. if os_path_exists (fs w) ?R then shutil_rmtree E ?R True w else (None, w)"
  have sepRB: "separate ?R ?B" by (rule separate_siblings) simp
  have "\<exists>w1. ?clean w = (None, w1) \<and> lookup (fs w1) ?R = None \<and>
              os_path_isdir (fs w1) (script_dir E) \<and> lookup (fs w1) ?B = None \<and> out w1 = out w"
  proof (cases "os_path_exists (fs w) ?R")
    case False
    then show ?thesis using sd beta by (auto simp: os_path_exists_def)
  next
    case True
    with rel obtain es where es: "lookup (fs w) ?R = Some (Dir es)"
      by (auto simp: os_path_exists_def os_path_isfile_def split: option.splits node.splits)
    have r: "shutil_rmtree E ?R True w = (None, w\<lparr>fs := delete_at (fs w) ?R\<rparr>)"
      by (rule shutil_rmtree_ok [OF es _ nd]) simp
    have 1: "lookup (delete_at (fs w) ?R) ?R = None" by (rule lookup_delete_at_same) simp
    have 2: "os_path_isdir (delete_at (fs w) ?R) (script_dir E)"
      by (rule isdir_delete_at_above [OF sd strict_prefix_snoc])
    have 3: "lookup (delete_at (fs w) ?R) ?B = None"
      using lookup_delete_at_separate [OF sepRB] beta by (simp add: os_path_exists_def)
    show ?thesis using True r 1 2 3 by simp
  qed
  then obtain w1 where c: "?clean w = (None, w1)" and r1: "lookup (fs w1) ?R = None"
    and d1: "os_path_isdir (fs w1) (script_dir E)" and b1: "lookup (fs w1) ?B = None"
    and o1: "out w1 = out w" by blast
  from r1 have "\<not> os_path_exists (fs w1) ?R" by (simp add: os_path_exists_def)
  from makedirs_below_dir [OF this d1] obtain t' where mk: "makedirs (fs w1) ?R = Inr t'" by blast
  have r2: "lookup t' ?R = Some (Dir [])" by (rule makedirs_fresh [OF mk r1])
  have b2: "lookup t' ?B = None" using lookup_makedirs_separate [OF mk sepRB] b1 by simp
  have m: "os_makedirs ?R w1 = (None, w1\<lparr>fs := t'\<rparr>)" by (simp add: os_makedirs_def mk)
  have cp: "copy_beta_items ?B ?R (w1\<lparr>fs := t'\<rparr>) = (Some FileNotFoundError, w1\<lparr>fs := t'\<rparr>)"
    using b2 by (simp add: copy_beta_items_def os_listdir_def)
  have "copy_beta_to_release E w = (Some FileNotFoundError, w1\<lparr>fs := t'\<rparr>)"
    unfolding copy_beta_to_release_def Let_def using c m cp by simp
  then show ?thesis using r2 o1 by simp
qed


theorem copy_beta_to_release_absent_beta_witness:
  "\<not> os_path_exists (fs example_release) (script_dir example_env @ [''beta'']) \<and>
   os_path_isdir (fs example_release) (script_dir example_env) \<and>
   \<not> os_path_isfile (fs example_release) (script_dir example_env @ [''release'']) \<and>
   copy_beta_to_release example_env example_release =
     (Some FileNotFoundError, \<lparr>fs = Dir [(''pack'', Dir [(''release'', Dir [])])], out = []\<rparr>)"
proof -
  have h1: "\<not> os_path_exists (fs example_release) (script_dir example_env @ [''beta''])"
    by (simp add: example_release_def example_env_def os_path_exists_def)
  have h2: "os_path_isdir (fs example_release) (script_dir example_env)"
    by (simp add: example_release_def example_env_def os_path_isdir_def)
  have h3: "\<not> os_path_isfile (fs example_release) (script_dir example_env @ [''release''])"
    by (simp add: example_release_def example_env_def os_path_isfile_def)
  have h4: "\<forall>q. prefix (script_dir example_env @ [''release'']) q \<longrightarrow> \<not> denied example_env q"
    by (simp add: example_env_def)
  have r: "copy_beta_to_release example_env example_release =
     (Some FileNotFoundError, \<lparr>fs = Dir [(''pack'', Dir [(''release'', Dir [])])], out = []\<rparr>)"
    by (simp add: copy_beta_to_release_def Let_def example_env_def example_release_def
          os_path_exists_def shutil_rmtree_def os_makedirs_def copy_beta_items_def os_listdir_def)
  from copy_beta_to_release_absent_beta [OF h1 h2 h3 h4] h1 h2 h3 r show ?thesis by simp
qed

text \<open>
  C1. The claim that the entries after a failed removal are still attempted does not
  hold: with a list naming \<open>a\<close> and then \<open>b\<close>, and the removal of \<open>a\<close> refused, \<open>b\<close> is
  still there afterwards although nothing refuses its removal.
\<close>

theorem process_removals_skips_rest:
  "\<not> denied example_env_locked [''out'', ''b''] \<and>
   os_path_isfile (fs (process_removals example_env_locked [''out''] example_removal)) [''out'', ''b'']"
proof -
  have rf: "read_file example_env_locked [''out'', ''filesToRemove.txt'']
              (''a'' @ [CHR 0x0A] @ ''b'' @ [CHR 0x0A]) = Inr (''a'' @ [CHR 0x0A] @ ''b'' @ [CHR 0x0A])"
    by (rule read_file_ascii) (simp_all add: example_env_locked_def byte_in_def)
  have s1: "strip (''a'' @ [CHR 0x0A]) = ''a''" by code_simp
  show ?thesis
    using rf s1
    by (simp add: example_env_locked_def example_removal_def process_removals_def readlines_def
        Let_def os_path_join_def path_string_def resolve_def
        os_path_isdir_def os_path_isfile_def os_remove_def print_def)
qed

text \<open>
  C1, as the code has it. One \<^verbatim>\<open>try\<close> spans the whole loop: when the removal of a listed
  entry fails, the block ends there with the failure reported by one message. The file
  system is exactly as the failed removal left it: the lines after it have no effect,
  and the removal of the list, which comes after the loop, is not attempted.
\<close>

theorem process_removals_stops_at_failure:
  assumes "lookup (fs w) (output_path @ [''filesToRemove.txt'']) = Some (File bytes)"
    and "read_file E (output_path @ [''filesToRemove.txt'']) bytes = Inr content"
    and "readlines content = ls @ rest"
    and "remove_listed E output_path ls (print ''Removing files from the list...'' w) = (Some e, w')"
  shows "process_removals E output_path w = print ''Error removing files'' w' \<and>
         fs (process_removals E output_path w) = fs w' \<and>
         out (process_removals E output_path w) = out w' @ [Print ''Error removing files'']"
  using assms by (simp add: process_removals_def remove_listed_append print_def)

theorem process_removals_stops_at_failure_witness:
  "lookup (fs example_removal) ([''out''] @ [''filesToRemove.txt'']) =
     Some (File (''a'' @ [CHR 0x0A] @ ''b'' @ [CHR 0x0A])) \<and>
   read_file example_env_locked ([''out''] @ [''filesToRemove.txt''])
     (''a'' @ [CHR 0x0A] @ ''b'' @ [CHR 0x0A]) = Inr (''a'' @ [CHR 0x0A] @ ''b'' @ [CHR 0x0A]) \<and>
   readlines (''a'' @ [CHR 0x0A] @ ''b'' @ [CHR 0x0A]) = [''a'' @ [CHR 0x0A]] @ [''b'' @ [CHR 0x0A]] \<and>
   remove_listed example_env_locked [''out''] [''a'' @ [CHR 0x0A]]
     (print ''Removing files from the list...'' example_removal) =
     (Some PermissionError, print ''Removing files from the list...'' example_removal) \<and>
   process_removals example_env_locked [''out''] example_removal =
     print ''Error removing files'' (print ''Removing files from the list...'' example_removal) \<and>
   os_path_isfile (fs (process_removals example_env_locked [''out''] example_removal))
     [''out'', ''filesToRemove.txt'']"
proof -
  have h1: "lookup (fs example_removal) ([''out''] @ [''filesToRemove.txt'']) =
     Some (File (''a'' @ [CHR 0x0A] @ ''b'' @ [CHR 0x0A]))"
    by (simp add: example_removal_def)
  have h2: "read_file example_env_locked ([''out''] @ [''filesToRemove.txt''])
     (''a'' @ [CHR 0x0A] @ ''b'' @ [CHR 0x0A]) = Inr (''a'' @ [CHR 0x0A] @ ''b'' @ [CHR 0x0A])"
    by (rule read_file_ascii) (simp_all add: example_env_locked_def byte_in_def)
  have h3: "readlines (''a'' @ [CHR 0x0A] @ ''b'' @ [CHR 0x0A]) =
     [''a'' @ [CHR 0x0A]] @ [''b'' @ [CHR 0x0A]]"
    by (simp add: readlines_def)
  have s1: "strip (''a'' @ [CHR 0x0A]) = ''a''" by code_simp
  have h4: "remove_listed example_env_locked [''out''] [''a'' @ [CHR 0x0A]]
     (print ''Removing files from the list...'' example_removal) =
     (Some PermissionError, print ''Removing files from the list...'' example_removal)"
    using s1
    by (simp add: example_env_locked_def example_removal_def
        Let_def os_path_join_def path_string_def resolve_def
        os_path_isdir_def os_path_isfile_def os_remove_def print_def)
  note t = process_removals_stops_at_failure [OF h1 h2 h3 h4]
  from t have r: "process_removals example_env_locked [''out''] example_removal =
     print ''Error removing files'' (print ''Removing files from the list...'' example_removal)"
    by (rule conjunct1)
  from t have "fs (process_removals example_env_locked [''out''] example_removal) =
     fs (print ''Removing files from the list...'' example_removal)" by blast
  then have l: "os_path_isfile (fs (process_removals example_env_locked [''out''] example_removal))
     [''out'', ''filesToRemove.txt'']"
    by (simp add: print_def example_removal_def os_path_isfile_def)
  from h1 h2 h3 h4 r l show ?thesis by blast
qed
text \<open>
  C9. Removals are not confined to the output directory. \<^verbatim>\<open>os.path.join\<close> with an
  absolute second argument is that argument, so an absolute line of the list names its
  own path; and nothing normalises or checks the joined path. Here the list of the output
  directory \<open>/out\<close> holds the lines \<^verbatim>\<open>/etc/victim\<close> and \<^verbatim>\<open>../sibling\<close>: the file
  \<open>/etc/victim\<close> and the directory \<open>/sibling\<close>, both outside \<open>/out\<close>, are removed.
\<close>

theorem removal_not_confined:
  "os_path_join a (CHR ''/'' # b) = CHR ''/'' # b \<and>
   os_path_isfile (fs example_escape) [''etc'', ''victim''] \<and>
   os_path_isdir (fs example_escape) [''sibling''] \<and>
   process_removals example_env [''out''] example_escape =
     \<lparr>fs = Dir [(''etc'', Dir []), (''out'', Dir [])],
      out = [Print ''Removing files from the list...'']\<rparr>"
proof (intro conjI)
  show "os_path_join a (CHR ''/'' # b) = CHR ''/'' # b" by (simp add: os_path_join_def)
  show "os_path_isfile (fs example_escape) [''etc'', ''victim'']"
    by (simp add: example_escape_def os_path_isfile_def)
  show "os_path_isdir (fs example_escape) [''sibling'']"
    by (simp add: example_escape_def os_path_isdir_def)
  have rf: "read_file example_env [''out'', ''filesToRemove.txt'']
              (''/etc/victim'' @ [CHR 0x0A] @ ''../sibling'' @ [CHR 0x0A]) =
            Inr (''/etc/victim'' @ [CHR 0x0A] @ ''../sibling'' @ [CHR 0x0A])"
    by (rule read_file_ascii) (simp_all add: example_env_def byte_in_def)
  have s1: "strip (''/etc/victim'' @ [CHR 0x0A]) = ''/etc/victim''" by code_simp
  have s2: "strip (''../sibling'' @ [CHR 0x0A]) = ''../sibling''" by code_simp
  show "process_removals example_env [''out''] example_escape =
     \<lparr>fs = Dir [(''etc'', Dir []), (''out'', Dir [])],
      out = [Print ''Removing files from the list...'']\<rparr>"
    using rf s1 s2
    by (simp add: example_env_def example_escape_def process_removals_def readlines_def
        Let_def os_path_join_def path_string_def resolve_def ends_in_dot_def
        os_path_isdir_def os_path_isfile_def os_remove_def shutil_rmtree_def print_def)
qed

text \<open>
  C8. Removal-list processing that nothing refuses: the output directory holds the list,
  which can be read as text, every line that is not blank is, stripped of white space, a
  relative path of plain names, and none names the list itself. Then no error is
  reported (the only message is the announcement), the list is gone, and the path of
  every line is absent afterwards, whether it named a file, a directory or nothing.
\<close>

theorem process_removals_removes:
  assumes lst: "lookup (fs w) (output_path @ [''filesToRemove.txt'']) = Some (File bytes)"
    and rd: "read_file E (output_path @ [''filesToRemove.txt'']) bytes = Inr content"
    and ne: "output_path \<noteq> []" and pl: "\<forall>c \<in> set output_path. plain c"
    and nd: "\<forall>q. \<not> denied E q"
    and lines: "\<forall>l \<in> set (readlines content). strip l \<noteq> [] \<longrightarrow>
       plain_relative (strip l) \<and> split_on CHR ''/'' (strip l) \<noteq> [''filesToRemove.txt'']"
  shows "out (process_removals E output_path w) = out w @ [Print ''Removing files from the list...''] \<and>
         \<not> os_path_exists (fs (process_removals E output_path w)) (output_path @ [''filesToRemove.txt'']) \<and>
         (\<forall>l \<in> set (readlines content). strip l \<noteq> [] \<longrightarrow>
            \<not> os_path_exists (fs (process_removals E output_path w))
                (output_path @ split_on CHR ''/'' (strip l)))"
proof -
  let ?LP = "output_path @ [''filesToRemove.txt'']"
  let ?w0 = "print ''Removing files from the list...'' w"
  have d0: "os_path_isdir (fs ?w0) output_path"
    using isdir_parent [OF lst] by (simp add: print_def)
  have l0: "lookup (fs ?w0) ?LP = Some (File bytes)" using lst by (simp add: print_def)
  from remove_listed_plain [OF pl ne nd d0 l0 lines] obtain w' where
    r: "remove_listed E output_path (readlines content) ?w0 = (None, w')"
    and l1: "lookup (fs w') ?LP = Some (File bytes)"
    and o1: "out w' = out ?w0"
    and t1: "\<forall>l \<in> set (readlines content). strip l \<noteq> [] \<longrightarrow>
                 lookup (fs w') (output_path @ split_on CHR ''/'' (strip l)) = None" by blast
  have rm: "os_remove E ?LP w' = (None, w'\<lparr>fs := delete_at (fs w') ?LP\<rparr>)"
    using l1 nd by (simp add: os_remove_def)
  have res: "process_removals E output_path w = w'\<lparr>fs := delete_at (fs w') ?LP\<rparr>"
    using lst rd r rm by (simp add: process_removals_def)
  have g: "lookup (delete_at (fs w') ?LP) ?LP = None" by (rule lookup_delete_at_same) simp
  show ?thesis
    using res o1 g t1 by (auto simp: print_def os_path_exists_def lookup_delete_at_absent)
qed

theorem process_removals_removes_witness:
  "lookup (fs example_list) ([''out''] @ [''filesToRemove.txt'']) =
     Some (File (''f.txt'' @ [CHR 0xC2, CHR 0xA0, CHR 0x0D, CHR 0x0A] @ ''d'' @ [CHR 0x0A] @
                 ''missing'' @ [CHR 0x0A])) \<and>
   read_file example_env ([''out''] @ [''filesToRemove.txt''])
     (''f.txt'' @ [CHR 0xC2, CHR 0xA0, CHR 0x0D, CHR 0x0A] @ ''d'' @ [CHR 0x0A] @
      ''missing'' @ [CHR 0x0A]) =
     Inr (''f.txt'' @ [CHR 0xC2, CHR 0xA0, CHR 0x0A] @ ''d'' @ [CHR 0x0A] @ ''missing'' @ [CHR 0x0A]) \<and>
   os_path_isfile (fs example_list) [''out'', ''f.txt''] \<and>
   os_path_isdir (fs example_list) [''out'', ''d''] \<and>
   \<not> os_path_exists (fs example_list) [''out'', ''missing''] \<and>
   out (process_removals example_env [''out''] example_list) =
     [Print ''Removing files from the list...''] \<and>
   \<not> os_path_exists (fs (process_removals example_env [''out''] example_list))
       [''out'', ''filesToRemove.txt''] \<and>
   \<not> os_path_exists (fs (process_removals example_env [''out''] example_list)) [''out'', ''f.txt''] \<and>
   \<not> os_path_exists (fs (process_removals example_env [''out''] example_list)) [''out'', ''d'']"
proof -
  let ?bytes = "''f.txt'' @ [CHR 0xC2, CHR 0xA0, CHR 0x0D, CHR 0x0A] @ ''d'' @ [CHR 0x0A] @
                ''missing'' @ [CHR 0x0A]"
  let ?content = "''f.txt'' @ [CHR 0xC2, CHR 0xA0, CHR 0x0A] @ ''d'' @ [CHR 0x0A] @
                  ''missing'' @ [CHR 0x0A]"
  have h1: "lookup (fs example_list) ([''out''] @ [''filesToRemove.txt'']) = Some (File ?bytes)"
    by (simp add: example_list_def)
  have dt: "decode_text ?bytes = Inr ?content" by code_simp
  have rd: "read_file example_env ([''out''] @ [''filesToRemove.txt'']) ?bytes = Inr ?content"
    using dt by (simp add: read_file_def example_env_def)
  have h2: "[''out''] \<noteq> []" by simp
  have h3: "\<forall>c \<in> set [''out'']. plain c" by (simp add: plain_def)
  have h4: "\<forall>q. \<not> denied example_env q" by (simp add: example_env_def)
  have rl: "readlines ?content =
     [''f.txt'' @ [CHR 0xC2, CHR 0xA0, CHR 0x0A], ''d'' @ [CHR 0x0A], ''missing'' @ [CHR 0x0A]]"
    by (simp add: readlines_def)
  have s1: "strip (''f.txt'' @ [CHR 0xC2, CHR 0xA0, CHR 0x0A]) = ''f.txt''" by code_simp
  have s2: "strip (''d'' @ [CHR 0x0A]) = ''d''" by code_simp
  have s3: "strip (''missing'' @ [CHR 0x0A]) = ''missing''" by code_simp
  have h5: "\<forall>l \<in> set (readlines ?content). strip l \<noteq> [] \<longrightarrow>
       plain_relative (strip l) \<and> split_on CHR ''/'' (strip l) \<noteq> [''filesToRemove.txt'']"
    unfolding rl using s1 s2 s3 by (simp add: plain_relative_def plain_def)
  have f: "os_path_isfile (fs example_list) [''out'', ''f.txt'']"
    by (simp add: example_list_def os_path_isfile_def)
  have d: "os_path_isdir (fs example_list) [''out'', ''d'']"
    by (simp add: example_list_def os_path_isdir_def)
  have m: "\<not> os_path_exists (fs example_list) [''out'', ''missing'']"
    by (simp add: example_list_def os_path_exists_def)
  note t = process_removals_removes [OF h1 rd h2 h3 h4 h5]
  from t have o: "out (process_removals example_env [''out''] example_list) =
     [Print ''Removing files from the list...'']" by (simp add: example_list_def)
  from t have l: "\<not> os_path_exists (fs (process_removals example_env [''out''] example_list))
       [''out'', ''filesToRemove.txt'']" by simp
  from t have a: "\<forall>l \<in> set (readlines ?content). strip l \<noteq> [] \<longrightarrow>
            \<not> os_path_exists (fs (process_removals example_env [''out''] example_list))
                ([''out''] @ split_on CHR ''/'' (strip l))" by blast
  from a have a1: "\<not> os_path_exists (fs (process_removals example_env [''out''] example_list))
       [''out'', ''f.txt'']" unfolding rl using s1 by simp
  from a have a2: "\<not> os_path_exists (fs (process_removals example_env [''out''] example_list))
       [''out'', ''d'']" unfolding rl using s2 by simp
  from h1 rd f d m o l a1 a2 show ?thesis by blast
qed
text \<open>
  C5. The giga build: after the output directory has been cleaned and the four tiers
  merged without an exception, the output holds at a relative path \<open>q\<close> what the giga
  tier has there, else what the nano tier has, else what the common server tier has, else
  what the framework tier has. Here \<open>q\<close> is a file path in every tier: no tier has a
  directory at \<open>q\<close> or a regular file at a proper prefix of \<open>q\<close>. So all four tiers are
  merged, in this order, and on a collision giga wins over nano, nano over server, server
  over the framework.
\<close>

theorem merge_tiers_giga_precedence:
  assumes wf: "wf_node (fs w)"
    and names: "plain modloader" "plain mcversion"
    and run: "run_steps [clean_output E (output_path_of E modloader mcversion ''giga''),
                         merge_tiers E modloader mcversion ''giga''
                           (output_path_of E modloader mcversion ''giga'')] w = (None, w')"
    and q: "q \<noteq> []"
    and fpF: "file_path (fs w) (src_path E modloader mcversion ''giga'') q"
    and fpS: "file_path (fs w) (src_path_server E modloader) q"
    and fpN: "file_path (fs w) (src_path_nano E modloader) q"
    and fpG: "file_path (fs w) (src_path_giga E modloader) q"
  shows "lookup (fs w') (output_path_of E modloader mcversion ''giga'' @ q) =
     (case lookup (fs w) (src_path_giga E modloader @ q) of
        Some n \<Rightarrow> Some n
      | None \<Rightarrow>
          (case lookup (fs w) (src_path_nano E modloader @ q) of
             Some n \<Rightarrow> Some n
           | None \<Rightarrow>
               (case lookup (fs w) (src_path_server E modloader @ q) of
                  Some n \<Rightarrow> Some n
                | None \<Rightarrow> lookup (fs w) (src_path E modloader mcversion ''giga'' @ q))))"
proof -
  let ?O = "output_path_of E modloader mcversion ''giga''"
  let ?F = "src_path E modloader mcversion ''giga''"
  let ?S = "src_path_server E modloader"
  let ?N = "src_path_nano E modloader"
  let ?G = "src_path_giga E modloader"
  have One: "?O \<noteq> []" by (simp add: output_path_of_def)
  have sOF: "separate ?O ?F" and sOS: "separate ?O ?S" and sON: "separate ?O ?N"
    and sOG: "separate ?O ?G"
    by (simp_all add: output_path_of_def src_path_def src_path_server_def src_path_nano_def
          src_path_giga_def separate_def)
  have sFO: "separate ?F ?O" and sSO: "separate ?S ?O" and sNO: "separate ?N ?O"
    and sGO: "separate ?G ?O"
    using sOF sOS sON sOG by (auto simp: separate_def)
  from run_steps_Cons_None [OF run] obtain w0 where
    c: "clean_output E ?O w = (None, w0)"
    and m: "run_steps [merge_tiers E modloader mcversion ''giga'' ?O] w0 = (None, w')" by blast
  from run_steps_Cons_None [OF m] have m': "merge_tiers E modloader mcversion ''giga'' ?O w0 = (None, w')"
    by auto
  then have m4: "run_steps [copy_directory_contents ?F ?O, copy_directory_contents ?S ?O,
                            copy_directory_contents ?N ?O, copy_directory_contents ?G ?O] w0
                 = (None, w')"
    by (simp add: merge_tiers_def)
  from run_steps_Cons_None [OF m4] obtain w1 where
    r1: "copy_directory_contents ?F ?O w0 = (None, w1)"
    and m3: "run_steps [copy_directory_contents ?S ?O,
                            copy_directory_contents ?N ?O, copy_directory_contents ?G ?O] w1
                 = (None, w')" by blast
  from run_steps_Cons_None [OF m3] obtain w2 where
    r2: "copy_directory_contents ?S ?O w1 = (None, w2)"
    and m2: "run_steps [copy_directory_contents ?N ?O, copy_directory_contents ?G ?O] w2
                 = (None, w')" by blast
  from run_steps_Cons_None [OF m2] obtain w3 where
    r3: "copy_directory_contents ?N ?O w2 = (None, w3)"
    and m1: "run_steps [copy_directory_contents ?G ?O] w3 = (None, w')" by blast
  from run_steps_Cons_None [OF m1] have r4: "copy_directory_contents ?G ?O w3 = (None, w')"
    by auto
  \<comment> \<open>the tiers are not touched\<close>
  have k0: "\<And>T p. separate ?O T \<Longrightarrow> lookup (fs w0) (T @ p) = lookup (fs w) (T @ p)"
    by (rule clean_output_ok(2) [OF c One separate_append])
  have k1: "\<And>T p. separate ?O T \<Longrightarrow> lookup (fs w1) (T @ p) = lookup (fs w) (T @ p)"
    using tier_sources_kept [OF r1] k0 by simp
  have k2: "\<And>T p. separate ?O T \<Longrightarrow> lookup (fs w2) (T @ p) = lookup (fs w) (T @ p)"
    using tier_sources_kept [OF r2] k1 by simp
  have k3: "\<And>T p. separate ?O T \<Longrightarrow> lookup (fs w3) (T @ p) = lookup (fs w) (T @ p)"
    using tier_sources_kept [OF r3] k2 by simp
  have wfT: "\<And>T m wi. (\<And>p. lookup (fs wi) (T @ p) = lookup (fs w) (T @ p)) \<Longrightarrow>
               lookup (fs wi) T = Some m \<Longrightarrow> wf_node m"
  proof -
    fix T m wi assume a: "\<And>p. lookup (fs wi) (T @ p) = lookup (fs w) (T @ p)"
      and b: "lookup (fs wi) T = Some m"
    from a [of "[]"] b have "lookup (fs w) T = Some m" by simp
    with wf show "wf_node m" by (rule wf_node_lookup)
  qed
  \<comment> \<open>the output directory starts empty\<close>
  have e0: "lookup (fs w0) ?O = Some (Dir [])" by (rule clean_output_ok(1) [OF c One])
  obtain k ks where qk: "q = k # ks" using q by (cases q) auto
  have v0: "lookup (fs w0) (?O @ q) = None" using e0 by (simp add: lookup_append qk)
  then have d0: "\<not> os_path_isdir (fs w0) (?O @ q)" by (simp add: os_path_isdir_def)
  \<comment> \<open>framework\<close>
  have f0: "file_path (fs w0) ?F q" using file_path_frame [OF k0 [OF sOF]] fpF by simp
  note s1 = tier_step [OF r1 sFO wfT [OF k0 [OF sOF]] f0 q d0]
  \<comment> \<open>server\<close>
  have f1: "file_path (fs w1) ?S q" using file_path_frame [OF k1 [OF sOS]] fpS by simp
  note s2 = tier_step [OF r2 sSO wfT [OF k1 [OF sOS]] f1 q s1(2)]
  \<comment> \<open>nano\<close>
  have f2: "file_path (fs w2) ?N q" using file_path_frame [OF k2 [OF sON]] fpN by simp
  note s3 = tier_step [OF r3 sNO wfT [OF k2 [OF sON]] f2 q s2(2)]
  \<comment> \<open>giga\<close>
  have f3: "file_path (fs w3) ?G q" using file_path_frame [OF k3 [OF sOG]] fpG by simp
  note s4 = tier_step [OF r4 sGO wfT [OF k3 [OF sOG]] f3 q s3(2)]
  show ?thesis
    using s4(1) s3(1) s2(1) s1(1) v0 k0 [OF sOF] k1 [OF sOS] k2 [OF sON] k3 [OF sOG]
    by (simp split: option.splits)
qed

theorem merge_tiers_giga_precedence_witness:
  "wf_node (fs example_tiers) \<and> plain ''forge'' \<and> plain ''1.20.1'' \<and>
   fst (run_steps [clean_output example_config_env
                     (output_path_of example_config_env ''forge'' ''1.20.1'' ''giga''),
                   merge_tiers example_config_env ''forge'' ''1.20.1'' ''giga''
                     (output_path_of example_config_env ''forge'' ''1.20.1'' ''giga'')]
          example_tiers) = None \<and>
   lookup (fs (snd (run_steps [clean_output example_config_env
                     (output_path_of example_config_env ''forge'' ''1.20.1'' ''giga''),
                   merge_tiers example_config_env ''forge'' ''1.20.1'' ''giga''
                     (output_path_of example_config_env ''forge'' ''1.20.1'' ''giga'')]
          example_tiers)))
     (output_path_of example_config_env ''forge'' ''1.20.1'' ''giga'' @ [''mods'', ''c.jar''])
     = Some (File ''gc'')"
proof -
  let ?R = "run_steps [clean_output example_config_env
                     (output_path_of example_config_env ''forge'' ''1.20.1'' ''giga''),
                   merge_tiers example_config_env ''forge'' ''1.20.1'' ''giga''
                     (output_path_of example_config_env ''forge'' ''1.20.1'' ''giga'')]
          example_tiers"
  have h1: "wf_node (fs example_tiers)" by (simp add: example_tiers_def)
  have h2: "plain ''forge''" "plain ''1.20.1''" by (simp_all add: plain_def)
  have r: "fst ?R = None"
    by (simp add: example_tiers_def example_config_env_def output_path_of_def clean_output_def
          merge_tiers_def src_path_def src_path_server_def src_path_nano_def src_path_giga_def
          copy_directory_contents_def os_path_exists_def os_makedirs_def os_listdir_def
          copy_item_def copy2_slot_def copytree_slot_def set_slot_def)
  then have h3: "?R = (None, snd ?R)" by (metis prod.collapse)
  have h4: "[''mods'', ''c.jar''] \<noteq> []" by simp
  have fF: "file_path (fs example_tiers) (src_path example_config_env ''forge'' ''1.20.1'' ''giga'')
              [''mods'', ''c.jar'']"
    and fS: "file_path (fs example_tiers) (src_path_server example_config_env ''forge'')
              [''mods'', ''c.jar'']"
    and fN: "file_path (fs example_tiers) (src_path_nano example_config_env ''forge'')
              [''mods'', ''c.jar'']"
    and fG: "file_path (fs example_tiers) (src_path_giga example_config_env ''forge'')
              [''mods'', ''c.jar'']"
    by (simp_all add: file_path_def example_tiers_def example_config_env_def src_path_def
          src_path_server_def src_path_nano_def src_path_giga_def os_path_isdir_def
          os_path_isfile_def)
  from merge_tiers_giga_precedence [OF h1 h2 h3 h4 fF fS fN fG]
  have "lookup (fs (snd ?R))
     (output_path_of example_config_env ''forge'' ''1.20.1'' ''giga'' @ [''mods'', ''c.jar''])
     = Some (File ''gc'')"
    by (simp add: example_tiers_def example_config_env_def src_path_giga_def)
  with h1 h2 r show ?thesis by simp
qed


text \<open>
  C6. The server build merges the framework tier and the common server tier and nothing
  else. After the output directory has been cleaned, for a relative path \<open>q\<close> that is a
  file path in these two tiers (neither has a directory at \<open>q\<close> or a regular file at a
  proper prefix of it): whatever the outcome of the two merges, when neither tier has
  \<open>q\<close> the output does not have it, whatever the nano and giga tiers hold; and when the
  merges return without an exception the output holds at \<open>q\<close> what the server tier has
  there, else what the framework tier has.
\<close>

theorem merge_tiers_server_only:
  assumes wf: "wf_node (fs w)"
    and names: "plain modloader" "plain mcversion"
    and clean: "clean_output E (output_path_of E modloader mcversion ''server'') w = (None, w0)"
    and run: "merge_tiers E modloader mcversion ''server''
                (output_path_of E modloader mcversion ''server'') w0 = (e, w')"
    and q: "q \<noteq> []"
    and fpF: "file_path (fs w) (src_path E modloader mcversion ''server'') q"
    and fpS: "file_path (fs w) (src_path_server E modloader) q"
  shows "merge_tiers E modloader mcversion ''server'' (output_path_of E modloader mcversion ''server'') =
           run_steps
             [copy_directory_contents (src_path E modloader mcversion ''server'')
                (output_path_of E modloader mcversion ''server''),
              copy_directory_contents (src_path_server E modloader)
                (output_path_of E modloader mcversion ''server'')] \<and>
         (\<not> os_path_exists (fs w) (src_path E modloader mcversion ''server'' @ q) \<and>
          \<not> os_path_exists (fs w) (src_path_server E modloader @ q) \<longrightarrow>
            \<not> os_path_exists (fs w') (output_path_of E modloader mcversion ''server'' @ q)) \<and>
         (e = None \<longrightarrow>
            lookup (fs w') (output_path_of E modloader mcversion ''server'' @ q) =
              (case lookup (fs w) (src_path_server E modloader @ q) of
                 Some n \<Rightarrow> Some n
               | None \<Rightarrow> lookup (fs w) (src_path E modloader mcversion ''server'' @ q)))"
proof (intro conjI impI)
  let ?O = "output_path_of E modloader mcversion ''server''"
  let ?F = "src_path E modloader mcversion ''server''"
  let ?S = "src_path_server E modloader"
  show m2: "merge_tiers E modloader mcversion ''server'' ?O =
           run_steps [copy_directory_contents ?F ?O, copy_directory_contents ?S ?O]"
    by (simp add: merge_tiers_def)
  have One: "?O \<noteq> []" by (simp add: output_path_of_def)
  have sOF: "separate ?O ?F" and sOS: "separate ?O ?S"
    by (simp_all add: output_path_of_def src_path_def src_path_server_def separate_def)
  have sFO: "separate ?F ?O" and sSO: "separate ?S ?O"
    using sOF sOS by (auto simp: separate_def)
  have k0: "\<And>T p. separate ?O T \<Longrightarrow> lookup (fs w0) (T @ p) = lookup (fs w) (T @ p)"
    by (rule clean_output_ok(2) [OF clean One separate_append])
  have wfT: "\<And>T m wi. (\<And>p. lookup (fs wi) (T @ p) = lookup (fs w) (T @ p)) \<Longrightarrow>
               lookup (fs wi) T = Some m \<Longrightarrow> wf_node m"
  proof -
    fix T m wi assume a: "\<And>p. lookup (fs wi) (T @ p) = lookup (fs w) (T @ p)"
      and b: "lookup (fs wi) T = Some m"
    from a [of "[]"] b have "lookup (fs w) T = Some m" by simp
    with wf show "wf_node m" by (rule wf_node_lookup)
  qed
  have e0: "lookup (fs w0) ?O = Some (Dir [])" by (rule clean_output_ok(1) [OF clean One])
  obtain k ks where qk: "q = k # ks" using q by (cases q) auto
  have v0: "lookup (fs w0) (?O @ q) = None" using e0 by (simp add: lookup_append qk)
  then have d0: "\<not> os_path_isdir (fs w0) (?O @ q)" by (simp add: os_path_isdir_def)
  obtain e1 w1 where r1: "copy_directory_contents ?F ?O w0 = (e1, w1)"
    by (cases "copy_directory_contents ?F ?O w0")
  have f0: "file_path (fs w0) ?F q" using file_path_frame [OF k0 [OF sOF]] fpF by simp
  have k1: "\<And>T p. separate ?O T \<Longrightarrow> lookup (fs w1) (T @ p) = lookup (fs w) (T @ p)"
    using tier_sources_kept [OF r1] k0 by simp
  have f1: "file_path (fs w1) ?S q" using file_path_frame [OF k1 [OF sOS]] fpS by simp
  {
    assume n: "\<not> os_path_exists (fs w) (?F @ q) \<and> \<not> os_path_exists (fs w) (?S @ q)"
    have l0: "lookup (fs w0) (?F @ q) = None"
      using k0 [OF sOF] n by (simp add: os_path_exists_def)
    have v1: "lookup (fs w1) (?O @ q) = None"
      using copy_directory_contents_lookup(1) [OF r1 sFO wfT [OF k0 [OF sOF]] f0 q l0] v0
      by simp
    show "\<not> os_path_exists (fs w') (?O @ q)"
    proof (cases e1)
      case (Some x)
      with run r1 have "w' = w1" by (simp add: m2)
      with v1 show ?thesis by (simp add: os_path_exists_def)
    next
      case None
      with run r1 have "run_steps [copy_directory_contents ?S ?O] w1 = (e, w')"
        by (simp add: m2)
      then obtain e2 where r2: "copy_directory_contents ?S ?O w1 = (e2, w')"
        by (cases "copy_directory_contents ?S ?O w1") (auto split: option.splits)
      have l1: "lookup (fs w1) (?S @ q) = None"
        using k1 [OF sOS] n by (simp add: os_path_exists_def)
      have "lookup (fs w') (?O @ q) = None"
        using copy_directory_contents_lookup(1) [OF r2 sSO wfT [OF k1 [OF sOS]] f1 q l1] v1
        by simp
      then show ?thesis by (simp add: os_path_exists_def)
    qed
  }
  {
    assume e: "e = None"
    with run have m: "run_steps [copy_directory_contents ?F ?O, copy_directory_contents ?S ?O] w0
                      = (None, w')" by (simp add: m2)
    from run_steps_Cons_None [OF m] r1 have e1: "e1 = None"
      and m1: "run_steps [copy_directory_contents ?S ?O] w1 = (None, w')" by auto
    from run_steps_Cons_None [OF m1] have r2: "copy_directory_contents ?S ?O w1 = (None, w')"
      by auto
    from r1 e1 have r1': "copy_directory_contents ?F ?O w0 = (None, w1)" by simp
    note s1 = tier_step [OF r1' sFO wfT [OF k0 [OF sOF]] f0 q d0]
    note s2 = tier_step [OF r2 sSO wfT [OF k1 [OF sOS]] f1 q s1(2)]
    show "lookup (fs w') (?O @ q) =
              (case lookup (fs w) (?S @ q) of
                 Some n \<Rightarrow> Some n
               | None \<Rightarrow> lookup (fs w) (?F @ q))"
      using s2(1) s1(1) v0 k0 [OF sOF] k1 [OF sOS] by (simp split: option.splits)
  }
qed

theorem merge_tiers_server_only_witness:
  "wf_node (fs example_tiers) \<and> plain ''forge'' \<and> plain ''1.20.1'' \<and>
   fst (clean_output example_config_env
          (output_path_of example_config_env ''forge'' ''1.20.1'' ''server'') example_tiers) = None \<and>
   fst (merge_tiers example_config_env ''forge'' ''1.20.1'' ''server''
          (output_path_of example_config_env ''forge'' ''1.20.1'' ''server'')
          (snd (clean_output example_config_env
                 (output_path_of example_config_env ''forge'' ''1.20.1'' ''server'')
                 example_tiers))) = None \<and>
   os_path_isfile (fs example_tiers)
     (src_path_nano example_config_env ''forge'' @ [''mods'', ''c.jar'']) \<and>
   \<not> os_path_exists (fs example_tiers)
     (src_path example_config_env ''forge'' ''1.20.1'' ''server'' @ [''mods'', ''c.jar'']) \<and>
   \<not> os_path_exists (fs example_tiers)
     (src_path_server example_config_env ''forge'' @ [''mods'', ''c.jar'']) \<and>
   \<not> os_path_exists
      (fs (snd (merge_tiers example_config_env ''forge'' ''1.20.1'' ''server''
                 (output_path_of example_config_env ''forge'' ''1.20.1'' ''server'')
                 (snd (clean_output example_config_env
                        (output_path_of example_config_env ''forge'' ''1.20.1'' ''server'')
                        example_tiers)))))
      (output_path_of example_config_env ''forge'' ''1.20.1'' ''server'' @ [''mods'', ''c.jar'']) \<and>
   lookup
      (fs (snd (merge_tiers example_config_env ''forge'' ''1.20.1'' ''server''
                 (output_path_of example_config_env ''forge'' ''1.20.1'' ''server'')
                 (snd (clean_output example_config_env
                        (output_path_of example_config_env ''forge'' ''1.20.1'' ''server'')
                        example_tiers)))))
      (output_path_of example_config_env ''forge'' ''1.20.1'' ''server'' @ [''mods'', ''a.jar''])
     = Some (File ''sa'') \<and>
   lookup
      (fs (snd (merge_tiers example_config_env ''forge'' ''1.20.1'' ''server''
                 (output_path_of example_config_env ''forge'' ''1.20.1'' ''server'')
                 (snd (clean_output example_config_env
                        (output_path_of example_config_env ''forge'' ''1.20.1'' ''server'')
                        example_tiers)))))
      (output_path_of example_config_env ''forge'' ''1.20.1'' ''server'' @ [''pack.toml''])
     = Some (File ''s'')"
proof -
  let ?O = "output_path_of example_config_env ''forge'' ''1.20.1'' ''server''"
  let ?C = "clean_output example_config_env ?O example_tiers"
  let ?M = "merge_tiers example_config_env ''forge'' ''1.20.1'' ''server'' ?O (snd ?C)"
  have h1: "wf_node (fs example_tiers)" by (simp add: example_tiers_def)
  have h2: "plain ''forge''" "plain ''1.20.1''" by (simp_all add: plain_def)
  have c: "fst ?C = None"
    by (simp add: example_tiers_def example_config_env_def output_path_of_def clean_output_def
          os_path_exists_def os_makedirs_def)
  then have h3: "?C = (None, snd ?C)" by (metis prod.collapse)
  have mn: "fst ?M = None"
    by (simp add: example_tiers_def example_config_env_def output_path_of_def clean_output_def
          merge_tiers_def src_path_def src_path_server_def
          copy_directory_contents_def os_path_exists_def os_makedirs_def os_listdir_def
          copy_item_def copy2_slot_def copytree_slot_def set_slot_def)
  have h4: "?M = (fst ?M, snd ?M)" by simp
  have fF: "file_path (fs example_tiers) (src_path example_config_env ''forge'' ''1.20.1'' ''server'') q"
    and fS: "file_path (fs example_tiers) (src_path_server example_config_env ''forge'') q"
    if "q = [''mods'', ''c.jar''] \<or> q = [''mods'', ''a.jar''] \<or> q = [''pack.toml'']" for q
    using that
    by (auto simp add: file_path_def example_tiers_def example_config_env_def src_path_def
          src_path_server_def os_path_isdir_def os_path_isfile_def)
  have nF: "\<not> os_path_exists (fs example_tiers)
     (src_path example_config_env ''forge'' ''1.20.1'' ''server'' @ [''mods'', ''c.jar''])"
    and nS: "\<not> os_path_exists (fs example_tiers)
     (src_path_server example_config_env ''forge'' @ [''mods'', ''c.jar''])"
    by (simp_all add: example_tiers_def example_config_env_def src_path_def src_path_server_def
          os_path_exists_def)
  have n: "os_path_isfile (fs example_tiers)
     (src_path_nano example_config_env ''forge'' @ [''mods'', ''c.jar''])"
    by (simp add: example_tiers_def example_config_env_def src_path_nano_def os_path_isfile_def)
  note t = merge_tiers_server_only [OF h1 h2 h3 h4]
  have q1: "[''mods'', ''c.jar''] \<noteq> []" and q2: "[''mods'', ''a.jar''] \<noteq> []"
    and q3: "[''pack.toml''] \<noteq> []" by simp_all
  from t [OF q1 fF fS] nF nS
  have a: "\<not> os_path_exists (fs (snd ?M)) (?O @ [''mods'', ''c.jar''])" by blast
  from t [OF q2 fF fS] mn
  have "lookup (fs (snd ?M)) (?O @ [''mods'', ''a.jar'']) =
          (case lookup (fs example_tiers)
                  (src_path_server example_config_env ''forge'' @ [''mods'', ''a.jar'']) of
             Some n \<Rightarrow> Some n
           | None \<Rightarrow> lookup (fs example_tiers)
                  (src_path example_config_env ''forge'' ''1.20.1'' ''server'' @ [''mods'', ''a.jar'']))"
    by blast
  then have b: "lookup (fs (snd ?M)) (?O @ [''mods'', ''a.jar'']) = Some (File ''sa'')"
    by (simp add: example_tiers_def example_config_env_def src_path_server_def)
  from t [OF q3 fF fS] mn
  have "lookup (fs (snd ?M)) (?O @ [''pack.toml'']) =
          (case lookup (fs example_tiers)
                  (src_path_server example_config_env ''forge'' @ [''pack.toml'']) of
             Some n \<Rightarrow> Some n
           | None \<Rightarrow> lookup (fs example_tiers)
                  (src_path example_config_env ''forge'' ''1.20.1'' ''server'' @ [''pack.toml'']))"
    by blast
  then have d: "lookup (fs (snd ?M)) (?O @ [''pack.toml'']) = Some (File ''s'')"
    by (simp add: example_tiers_def example_config_env_def src_path_server_def src_path_def)
  from h1 h2 c mn n nF nS a b d show ?thesis by blast
qed

end
